theory Spec2Isabelle
  imports Main "HOL-Library.Sublist"
begin

unbundle bit_operations_syntax

section \<open>Path algebra used by the adapters\<close>

text \<open>
  Go strings are byte sequences; they are modelled as \<open>string\<close> (a list of \<open>char\<close>).
  The adapters call \<open>path.Clean\<close>, \<open>filepath.FromSlash\<close>, \<open>filepath.Clean\<close> and
  \<open>filepath.Join\<close> of the Go standard library. The \<open>filepath\<close> functions are modelled
  as they are on the platforms without volume names (\<open>volumeNameLen\<close> is 0 and
  \<open>IsPathSeparator c\<close> is \<open>c == Separator\<close>); the platform separator is a parameter
  \<open>sep\<close> so that the separator test of \<open>resolve\<close> keeps both of its arms.
\<close>

text \<open>
  The inner loop of the \<open>..\<close> case of \<open>Clean\<close>:
  \<^verbatim>\<open>for out.w > dotdot && out.index(out.w) != '/' { out.w-- }\<close>
\<close>

fun backtrack :: "char \<Rightarrow> nat \<Rightarrow> string \<Rightarrow> nat \<Rightarrow> nat" where
  "backtrack sep dotdot buf w =
     (if w > dotdot \<and> buf ! w \<noteq> sep then backtrack sep dotdot buf (w - 1) else w)"

declare backtrack.simps [simp del]

text \<open>
  The \<open>..\<close> case of \<open>Clean\<close>. The lazy buffer \<open>out\<close> is modelled by the list of the
  \<open>out.w\<close> bytes written so far, so that \<open>out.w\<close> is its length and moving \<open>out.w\<close>
  back is \<open>take\<close>.
\<close>

definition dotdot_elem :: "char \<Rightarrow> bool \<Rightarrow> string \<times> nat \<Rightarrow> string \<times> nat" where
  "dotdot_elem sep rooted st =
     (case st of (out, dotdot) \<Rightarrow>
        if length out > dotdot
        then (take (backtrack sep dotdot out (length out - 1)) out, dotdot)
        else if \<not> rooted
        then (let out' = (if length out > 0 then out @ [sep] else out) @ ''..''
              in (out', length out'))
        else (out, dotdot))"

text \<open>The default case of \<open>Clean\<close>: a real path element \<open>el\<close> is appended.\<close>

definition real_elem :: "char \<Rightarrow> bool \<Rightarrow> string \<Rightarrow> string \<times> nat \<Rightarrow> string \<times> nat" where
  "real_elem sep rooted el st =
     (case st of (out, dotdot) \<Rightarrow>
        ((if rooted \<and> length out \<noteq> 1 \<or> \<not> rooted \<and> length out \<noteq> 0
          then out @ [sep] else out) @ el, dotdot))"

text \<open>
  The main loop of \<open>Clean\<close>, \<open>for r < n { switch { ... } }\<close>, over the unread part
  \<open>path[r:]\<close> of the input and the pair \<open>(out, dotdot)\<close>.
\<close>

function clean_loop :: "char \<Rightarrow> bool \<Rightarrow> string \<Rightarrow> string \<times> nat \<Rightarrow> string \<times> nat" where
  "clean_loop sep rooted [] st = st"
| "clean_loop sep rooted (c # cs) st =
     (if c = sep then clean_loop sep rooted cs st
      else if c = CHR ''.'' \<and> (case cs of [] \<Rightarrow> True | c1 # _ \<Rightarrow> c1 = sep)
      then clean_loop sep rooted cs st
      else if c = CHR ''.'' \<and>
              (case cs of [] \<Rightarrow> False
               | c1 # cs' \<Rightarrow> c1 = CHR ''.'' \<and> (case cs' of [] \<Rightarrow> True | c2 # _ \<Rightarrow> c2 = sep))
      then clean_loop sep rooted (tl cs) (dotdot_elem sep rooted st)
      else clean_loop sep rooted (dropWhile (\<lambda>x. x \<noteq> sep) cs)
             (real_elem sep rooted (c # takeWhile (\<lambda>x. x \<noteq> sep) cs) st))"
  by pat_completeness auto
termination
proof (relation "measure (\<lambda>(sep, rooted, p, st). length p)")
  fix sep :: char and c :: char and cs :: string
  have "length (dropWhile (\<lambda>x. x \<noteq> sep) cs) \<le> length cs"
    by (rule length_dropWhile_le)
  then show "((sep, rooted, dropWhile (\<lambda>x. x \<noteq> sep) cs, st'), (sep, rooted, c # cs, st))
      \<in> measure (\<lambda>(sep, rooted, p, st). length p)"
    for rooted :: bool and st st' :: "string \<times> nat"
    by simp
qed auto

declare clean_loop.simps(2) [simp del]

text \<open>
  The lexical cleaning shared by \<open>path.Clean\<close> (with \<open>/\<close>) and \<open>filepath.Clean\<close>
  (with the platform separator): the empty path is \<open>.\<close>, a rooted path starts the
  buffer with the separator, and an empty result is \<open>.\<close>.
\<close>

definition clean_core :: "char \<Rightarrow> string \<Rightarrow> string" where
  "clean_core sep p =
     (if p = [] then ''.''
      else let rooted = (hd p = sep);
               out = fst (clean_loop sep rooted (if rooted then tl p else p)
                            (if rooted then ([sep], 1) else ([], 0)))
           in if out = [] then ''.'' else out)"

definition path_Clean :: "string \<Rightarrow> string" where
  "path_Clean p = clean_core (CHR ''/'') p"

definition filepath_FromSlash :: "char \<Rightarrow> string \<Rightarrow> string" where
  "filepath_FromSlash sep p =
     (if sep = CHR ''/'' then p else map (\<lambda>c. if c = CHR ''/'' then sep else c) p)"

definition filepath_Clean :: "char \<Rightarrow> string \<Rightarrow> string" where
  "filepath_Clean sep p = filepath_FromSlash sep (clean_core sep p)"

fun strings_Join :: "string list \<Rightarrow> string \<Rightarrow> string" where
  "strings_Join [] s = []"
| "strings_Join [e] s = e"
| "strings_Join (e # es) s = e @ s @ strings_Join es s"

text \<open>
  \<open>filepath.Join\<close>: leading empty elements are skipped, the rest is joined with the
  separator and cleaned; with no non-empty element the result is the empty string.
\<close>

definition filepath_Join :: "char \<Rightarrow> string list \<Rightarrow> string" where
  "filepath_Join sep elem =
     (case dropWhile (\<lambda>e. e = []) elem of
        [] \<Rightarrow> []
      | es \<Rightarrow> filepath_Clean sep (strings_Join es [sep]))"

section \<open>Authentication context and configuration\<close>

text \<open>
  Modelled from the spec: \<open>AuthFromContext\<close> and the type of its result are declared
  outside the given sources. The spec gives a lookup per request that yields the
  authentication information, a flag and a user name, or nothing; the sources test the
  result against \<open>nil\<close>. A request context is modelled by the result of that lookup.
\<close>

record AuthInfo =
  Username :: string
  Authenticated :: bool

type_synonym Context = "AuthInfo option"

text \<open>
  Modelled from the spec: the types \<open>Config\<close>, \<open>UserInfo\<close> and the logging toggles are
  declared outside the given sources. The spec gives a root directory, a table from user
  names to policies with an optional subdirectory and four optional flags, and one logging
  toggle per kind of operation. The sources compare a looked-up policy with \<open>nil\<close> and
  each of its fields with \<open>nil\<close>, so the table holds pointers to policies with pointer
  fields: a missing key yields \<open>nil\<close> (\<open>None\<close>), an unset field is \<open>None\<close>.
\<close>

record UserInfo =
  Subdir :: "string option"
  Read :: "bool option"
  Write :: "bool option"
  Delete :: "bool option"
  List :: "bool option"

record Logging =
  Log_Create :: bool
  Log_Read :: bool
  Log_Update :: bool
  Log_Delete :: bool

record Config =
  Dir :: string
  Users :: "string \<rightharpoonup> UserInfo"
  Log :: Logging

record Dir =
  Config :: Config

record UserDir =
  BaseDir :: string

section \<open>Errors, the operating system and the adapter state\<close>

text \<open>
  The three sentinel errors the adapters return themselves, and the errors of the
  operating system, which are passed through unchanged.
\<close>

datatype error = ErrNotExist | ErrPermission | ErrInvalid | OSError nat

text \<open>A call either returns or panics on a nil pointer dereference.\<close>

datatype 'a outcome = Return 'a | NilDereference

record FileInfo =
  Name :: string
  Size :: int
  IsDir :: bool

datatype syscall =
    Sys_Mkdir string nat
  | Sys_OpenFile string int nat
  | Sys_RemoveAll string
  | Sys_Rename string string
  | Sys_Stat string

text \<open>
  The platform: its path separator and the answers of the operating system. An answer may
  depend on every call made before, so any file system behaviour is covered. Files are
  handles (\<open>nat\<close>), system errors are numbers.
\<close>

record platform =
  Separator :: char
  os_Mkdir :: "syscall list \<Rightarrow> string \<Rightarrow> nat \<Rightarrow> nat option"
  os_OpenFile :: "syscall list \<Rightarrow> string \<Rightarrow> int \<Rightarrow> nat \<Rightarrow> nat + nat"
  os_RemoveAll :: "syscall list \<Rightarrow> string \<Rightarrow> nat option"
  os_Rename :: "syscall list \<Rightarrow> string \<Rightarrow> string \<Rightarrow> nat option"
  os_Stat :: "syscall list \<Rightarrow> string \<Rightarrow> nat + FileInfo"

type_synonym log_entry = "string \<times> (string \<times> string) list"

text \<open>The state outside the adapter: the system calls made so far and the audit log.\<close>

record state =
  calls :: "syscall list"
  logs :: "log_entry list"

definition call_Mkdir :: "platform \<Rightarrow> string \<Rightarrow> nat \<Rightarrow> state \<Rightarrow> nat option \<times> state" where
  "call_Mkdir pf name perm st =
     (os_Mkdir pf (calls st) name perm, st\<lparr>calls := calls st @ [Sys_Mkdir name perm]\<rparr>)"

definition call_OpenFile :: "platform \<Rightarrow> string \<Rightarrow> int \<Rightarrow> nat \<Rightarrow> state \<Rightarrow> (nat + nat) \<times> state" where
  "call_OpenFile pf name flag perm st =
     (os_OpenFile pf (calls st) name flag perm,
      st\<lparr>calls := calls st @ [Sys_OpenFile name flag perm]\<rparr>)"

definition call_RemoveAll :: "platform \<Rightarrow> string \<Rightarrow> state \<Rightarrow> nat option \<times> state" where
  "call_RemoveAll pf name st =
     (os_RemoveAll pf (calls st) name, st\<lparr>calls := calls st @ [Sys_RemoveAll name]\<rparr>)"

definition call_Rename :: "platform \<Rightarrow> string \<Rightarrow> string \<Rightarrow> state \<Rightarrow> nat option \<times> state" where
  "call_Rename pf oldName newName st =
     (os_Rename pf (calls st) oldName newName,
      st\<lparr>calls := calls st @ [Sys_Rename oldName newName]\<rparr>)"

definition call_Stat :: "platform \<Rightarrow> string \<Rightarrow> state \<Rightarrow> (nat + FileInfo) \<times> state" where
  "call_Stat pf name st =
     (os_Stat pf (calls st) name, st\<lparr>calls := calls st @ [Sys_Stat name]\<rparr>)"

definition log_Info :: "string \<Rightarrow> (string \<times> string) list \<Rightarrow> state \<Rightarrow> state" where
  "log_Info msg flds st = st\<lparr>logs := logs st @ [(msg, flds)]\<rparr>"

section \<open>The adapter \<open>Dir\<close>\<close>

text \<open>The test \<open>authInfo != nil && authInfo.Authenticated\<close>, giving the information.\<close>

definition authenticated :: "Context \<Rightarrow> AuthInfo option" where
  "authenticated ctx =
     (case ctx of None \<Rightarrow> None | Some authInfo \<Rightarrow> if Authenticated authInfo then Some authInfo else None)"

definition resolveUser :: "Dir \<Rightarrow> Context \<Rightarrow> string" where
  "resolveUser d ctx = (case authenticated ctx of Some authInfo \<Rightarrow> Username authInfo | None \<Rightarrow> [])"

definition resolve :: "char \<Rightarrow> Dir \<Rightarrow> Context \<Rightarrow> string \<Rightarrow> string" where
  "resolve sep d ctx name =
     (if (sep \<noteq> CHR ''/'' \<and> sep \<in> set name) \<or> CHR 0x00 \<in> set name then []
      else let dir = (if Dir (Config d) = [] then ''.'' else Dir (Config d));
               cleaned = filepath_FromSlash sep (path_Clean (CHR ''/'' # name))
           in case authenticated ctx of
                Some authInfo \<Rightarrow>
                  (case Users (Config d) (Username authInfo) of
                     Some userInfo \<Rightarrow>
                       (case Subdir userInfo of
                          Some subdir \<Rightarrow> filepath_Join sep [dir, subdir, cleaned]
                        | None \<Rightarrow> filepath_Join sep [dir, cleaned])
                   | None \<Rightarrow> filepath_Join sep [dir, cleaned])
              | None \<Rightarrow> filepath_Join sep [dir, cleaned])"

text \<open>
  The four permission checks. For an authenticated request the policy is looked up and its
  field read without a test for \<open>nil\<close>: with no entry for the user name the read of the
  field dereferences \<open>nil\<close>.
\<close>

definition hasRead :: "Context \<Rightarrow> Dir \<Rightarrow> bool outcome" where
  "hasRead ctx d =
     (case authenticated ctx of
        Some authInfo \<Rightarrow>
          (case Users (Config d) (Username authInfo) of
             None \<Rightarrow> NilDereference
           | Some userInfo \<Rightarrow> Return (case Read userInfo of None \<Rightarrow> True | Some b \<Rightarrow> b))
      | None \<Rightarrow> Return (dom (Users (Config d)) = {}))"

definition hasWrite :: "Context \<Rightarrow> Dir \<Rightarrow> bool outcome" where
  "hasWrite ctx d =
     (case authenticated ctx of
        Some authInfo \<Rightarrow>
          (case Users (Config d) (Username authInfo) of
             None \<Rightarrow> NilDereference
           | Some userInfo \<Rightarrow> Return (case Write userInfo of None \<Rightarrow> True | Some b \<Rightarrow> b))
      | None \<Rightarrow> Return (dom (Users (Config d)) = {}))"

definition hasDelete :: "Context \<Rightarrow> Dir \<Rightarrow> bool outcome" where
  "hasDelete ctx d =
     (case authenticated ctx of
        Some authInfo \<Rightarrow>
          (case Users (Config d) (Username authInfo) of
             None \<Rightarrow> NilDereference
           | Some userInfo \<Rightarrow> Return (case Delete userInfo of None \<Rightarrow> True | Some b \<Rightarrow> b))
      | None \<Rightarrow> Return (dom (Users (Config d)) = {}))"

definition hasList :: "Context \<Rightarrow> Dir \<Rightarrow> bool outcome" where
  "hasList ctx d =
     (case authenticated ctx of
        Some authInfo \<Rightarrow>
          (case Users (Config d) (Username authInfo) of
             None \<Rightarrow> NilDereference
           | Some userInfo \<Rightarrow> Return (case List userInfo of None \<Rightarrow> True | Some b \<Rightarrow> b))
      | None \<Rightarrow> Return (dom (Users (Config d)) = {}))"

text \<open>\<open>os.O_RDWR\<close>, the value of \<open>syscall.O_RDWR\<close>.\<close>

definition O_RDWR :: int where
  "O_RDWR = 2"

definition Mkdir ::
  "platform \<Rightarrow> Dir \<Rightarrow> Context \<Rightarrow> string \<Rightarrow> nat \<Rightarrow> state \<Rightarrow> error option outcome \<times> state" where
  "Mkdir pf d ctx name perm st =
     (let name = resolve (Separator pf) d ctx name in
      if name = [] then (Return (Some ErrNotExist), st)
      else case hasWrite ctx d of
        NilDereference \<Rightarrow> (NilDereference, st)
      | Return allowed \<Rightarrow>
          if \<not> allowed then (Return (Some ErrPermission), st)
          else (case call_Mkdir pf name perm st of
                  (Some e, st') \<Rightarrow> (Return (Some (OSError e)), st')
                | (None, st') \<Rightarrow>
                    (Return None,
                     if Log_Create (Log (Config d))
                     then log_Info ''Created directory''
                            [(''path'', name), (''user'', resolveUser d ctx)] st'
                     else st')))"

text \<open>The end of \<open>OpenFile\<close>, from the call of \<open>os.OpenFile\<close> on.\<close>

definition OpenFile_open ::
  "platform \<Rightarrow> Dir \<Rightarrow> Context \<Rightarrow> string \<Rightarrow> int \<Rightarrow> nat \<Rightarrow> state \<Rightarrow> (error + nat) outcome \<times> state" where
  "OpenFile_open pf d ctx name flag perm st =
     (case call_OpenFile pf name flag perm st of
        (Inl e, st') \<Rightarrow> (Return (Inl (OSError e)), st')
      | (Inr f, st') \<Rightarrow>
          (Return (Inr f),
           if Log_Read (Log (Config d))
           then log_Info ''Opened file'' [(''path'', name), (''user'', resolveUser d ctx)] st'
           else st'))"

definition OpenFile ::
  "platform \<Rightarrow> Dir \<Rightarrow> Context \<Rightarrow> string \<Rightarrow> int \<Rightarrow> nat \<Rightarrow> state \<Rightarrow> (error + nat) outcome \<times> state" where
  "OpenFile pf d ctx name flag perm st =
     (let name = resolve (Separator pf) d ctx name in
      if name = [] then (Return (Inl ErrNotExist), st)
      else case (if flag AND 3 \<noteq> 0 then hasWrite ctx d else Return True) of
        NilDereference \<Rightarrow> (NilDereference, st)
      | Return w \<Rightarrow>
          if \<not> w then (Return (Inl ErrPermission), st)
          else if flag AND 3 = 0 \<or> flag AND 3 = O_RDWR
          then (case call_Stat pf name st of
                  (stat, st1) \<Rightarrow>
                    (case (if (case stat of Inr fi \<Rightarrow> IsDir fi | Inl e \<Rightarrow> False)
                           then hasList ctx d else Return True) of
                       NilDereference \<Rightarrow> (NilDereference, st1)
                     | Return l \<Rightarrow>
                         if \<not> l then (Return (Inl ErrPermission), st1)
                         else (case hasRead ctx d of
                                 NilDereference \<Rightarrow> (NilDereference, st1)
                               | Return r \<Rightarrow>
                                   if \<not> r then (Return (Inl ErrPermission), st1)
                                   else OpenFile_open pf d ctx name flag perm st1)))
          else OpenFile_open pf d ctx name flag perm st)"

definition RemoveAll ::
  "platform \<Rightarrow> Dir \<Rightarrow> Context \<Rightarrow> string \<Rightarrow> state \<Rightarrow> error option outcome \<times> state" where
  "RemoveAll pf d ctx name st =
     (let name = resolve (Separator pf) d ctx name in
      if name = [] then (Return (Some ErrNotExist), st)
      else if name = filepath_Clean (Separator pf) (Dir (Config d))
      then (Return (Some ErrInvalid), st)
      else case hasDelete ctx d of
        NilDereference \<Rightarrow> (NilDereference, st)
      | Return allowed \<Rightarrow>
          if \<not> allowed then (Return (Some ErrPermission), st)
          else (case call_RemoveAll pf name st of
                  (Some e, st') \<Rightarrow> (Return (Some (OSError e)), st')
                | (None, st') \<Rightarrow>
                    (Return None,
                     if Log_Delete (Log (Config d))
                     then log_Info ''Deleted file or directory''
                            [(''path'', name), (''user'', resolveUser d ctx)] st'
                     else st')))"

definition Rename ::
  "platform \<Rightarrow> Dir \<Rightarrow> Context \<Rightarrow> string \<Rightarrow> string \<Rightarrow> state \<Rightarrow> error option outcome \<times> state" where
  "Rename pf d ctx oldName newName st =
     (let oldName = resolve (Separator pf) d ctx oldName in
      if oldName = [] then (Return (Some ErrNotExist), st)
      else let newName = resolve (Separator pf) d ctx newName in
      if newName = [] then (Return (Some ErrNotExist), st)
      else case hasWrite ctx d of
        NilDereference \<Rightarrow> (NilDereference, st)
      | Return allowed \<Rightarrow>
          if \<not> allowed then (Return (Some ErrPermission), st)
          else let root = filepath_Clean (Separator pf) (Dir (Config d)) in
          if root = oldName \<or> root = newName then (Return (Some ErrInvalid), st)
          else (case call_Rename pf oldName newName st of
                  (Some e, st') \<Rightarrow> (Return (Some (OSError e)), st')
                | (None, st') \<Rightarrow>
                    (Return None,
                     if Log_Update (Log (Config d))
                     then log_Info ''Renamed file or directory''
                            [(''oldPath'', oldName), (''newPath'', newName),
                             (''user'', resolveUser d ctx)] st'
                     else st')))"

definition Stat ::
  "platform \<Rightarrow> Dir \<Rightarrow> Context \<Rightarrow> string \<Rightarrow> state \<Rightarrow> (error + FileInfo) outcome \<times> state" where
  "Stat pf d ctx name st =
     (let name = resolve (Separator pf) d ctx name in
      if name = [] then (Return (Inl ErrNotExist), st)
      else case hasList ctx d of
        NilDereference \<Rightarrow> (NilDereference, st)
      | Return allowed \<Rightarrow>
          if \<not> allowed then (Return (Inl ErrPermission), st)
          else (case call_Stat pf name st of
                  (Inl e, st') \<Rightarrow> (Return (Inl (OSError e)), st')
                | (Inr fi, st') \<Rightarrow> (Return (Inr fi), st')))"

section \<open>The adapter \<open>UserDir\<close>\<close>

text \<open>
  \<open>UserDir\<close> takes the authentication from \<open>auth.FromContext\<close>, modelled like
  \<open>AuthFromContext\<close>. Its operations make no permission check and write no log.
\<close>

definition UserDir_resolve :: "char \<Rightarrow> UserDir \<Rightarrow> Context \<Rightarrow> string \<Rightarrow> string" where
  "UserDir_resolve sep d ctx name =
     (if (sep \<noteq> CHR ''/'' \<and> sep \<in> set name) \<or> CHR 0x00 \<in> set name then []
      else let dir = (if BaseDir d = [] then ''.'' else BaseDir d);
               cleaned = filepath_FromSlash sep (path_Clean (CHR ''/'' # name))
           in case authenticated ctx of
                None \<Rightarrow> filepath_Join sep [dir, cleaned]
              | Some authInfo \<Rightarrow> filepath_Join sep [dir, Username authInfo, cleaned])"

definition UserDir_Mkdir ::
  "platform \<Rightarrow> UserDir \<Rightarrow> Context \<Rightarrow> string \<Rightarrow> nat \<Rightarrow> state \<Rightarrow> error option \<times> state" where
  "UserDir_Mkdir pf d ctx name perm st =
     (let name = UserDir_resolve (Separator pf) d ctx name in
      if name = [] then (Some ErrNotExist, st)
      else (case call_Mkdir pf name perm st of (e, st') \<Rightarrow> (map_option OSError e, st')))"

definition UserDir_OpenFile ::
  "platform \<Rightarrow> UserDir \<Rightarrow> Context \<Rightarrow> string \<Rightarrow> int \<Rightarrow> nat \<Rightarrow> state \<Rightarrow> (error + nat) \<times> state" where
  "UserDir_OpenFile pf d ctx name flag perm st =
     (let name = UserDir_resolve (Separator pf) d ctx name in
      if name = [] then (Inl ErrNotExist, st)
      else (case call_OpenFile pf name flag perm st of
              (Inl e, st') \<Rightarrow> (Inl (OSError e), st')
            | (Inr f, st') \<Rightarrow> (Inr f, st')))"

definition UserDir_RemoveAll ::
  "platform \<Rightarrow> UserDir \<Rightarrow> Context \<Rightarrow> string \<Rightarrow> state \<Rightarrow> error option \<times> state" where
  "UserDir_RemoveAll pf d ctx name st =
     (let name = UserDir_resolve (Separator pf) d ctx name in
      if name = [] then (Some ErrNotExist, st)
      else if name = filepath_Clean (Separator pf) (BaseDir d) then (Some ErrInvalid, st)
      else (case call_RemoveAll pf name st of (e, st') \<Rightarrow> (map_option OSError e, st')))"

definition UserDir_Rename ::
  "platform \<Rightarrow> UserDir \<Rightarrow> Context \<Rightarrow> string \<Rightarrow> string \<Rightarrow> state \<Rightarrow> error option \<times> state" where
  "UserDir_Rename pf d ctx oldName newName st =
     (let oldName = UserDir_resolve (Separator pf) d ctx oldName in
      if oldName = [] then (Some ErrNotExist, st)
      else let newName = UserDir_resolve (Separator pf) d ctx newName in
      if newName = [] then (Some ErrNotExist, st)
      else let root = filepath_Clean (Separator pf) (BaseDir d) in
      if root = oldName \<or> root = newName then (Some ErrInvalid, st)
      else (case call_Rename pf oldName newName st of (e, st') \<Rightarrow> (map_option OSError e, st')))"

definition UserDir_Stat ::
  "platform \<Rightarrow> UserDir \<Rightarrow> Context \<Rightarrow> string \<Rightarrow> state \<Rightarrow> (error + FileInfo) \<times> state" where
  "UserDir_Stat pf d ctx name st =
     (let name = UserDir_resolve (Separator pf) d ctx name in
      if name = [] then (Inl ErrNotExist, st)
      else (case call_Stat pf name st of
              (Inl e, st') \<Rightarrow> (Inl (OSError e), st')
            | (Inr fi, st') \<Rightarrow> (Inr fi, st')))"

section \<open>Sequences of requests\<close>

text \<open>
  The protocol layer calls the five operations of \<open>Dir\<close> in any order; a panic ends
  the request and the server goes on with the next one.
\<close>

datatype request =
    Req_Mkdir Context string nat
  | Req_OpenFile Context string int nat
  | Req_RemoveAll Context string
  | Req_Rename Context string string
  | Req_Stat Context string

fun serve :: "platform \<Rightarrow> Dir \<Rightarrow> request \<Rightarrow> state \<Rightarrow> state" where
  "serve pf d (Req_Mkdir ctx name perm) st = snd (Mkdir pf d ctx name perm st)"
| "serve pf d (Req_OpenFile ctx name flag perm) st = snd (OpenFile pf d ctx name flag perm st)"
| "serve pf d (Req_RemoveAll ctx name) st = snd (RemoveAll pf d ctx name st)"
| "serve pf d (Req_Rename ctx oldName newName) st = snd (Rename pf d ctx oldName newName st)"
| "serve pf d (Req_Stat ctx name) st = snd (Stat pf d ctx name st)"

fun serve_all :: "platform \<Rightarrow> Dir \<Rightarrow> request list \<Rightarrow> state \<Rightarrow> state" where
  "serve_all pf d [] st = st"
| "serve_all pf d (req # reqs) st = serve_all pf d reqs (serve pf d req st)"

section \<open>Scenarios\<close>

text \<open>
  The configurations of the scenarios of the specification, on a platform with separator
  \<open>/\<close> whose file system accepts every call and reports plain files, and on one that
  reports directories.
\<close>

definition unix_files :: platform where
  "unix_files =
     \<lparr>Separator = CHR ''/'',
      os_Mkdir = (\<lambda>h name perm. None),
      os_OpenFile = (\<lambda>h name flag perm. Inr 3),
      os_RemoveAll = (\<lambda>h name. None),
      os_Rename = (\<lambda>h oldName newName. None),
      os_Stat = (\<lambda>h name. Inr \<lparr>Name = name, Size = 0, IsDir = False\<rparr>)\<rparr>"

definition unix_dirs :: platform where
  "unix_dirs = unix_files\<lparr>os_Stat := (\<lambda>h name. Inr \<lparr>Name = name, Size = 0, IsDir = True\<rparr>)\<rparr>"

definition log_all :: Logging where
  "log_all = \<lparr>Log_Create = True, Log_Read = True, Log_Update = True, Log_Delete = True\<rparr>"

definition no_policy :: UserInfo where
  "no_policy = \<lparr>Subdir = None, Read = None, Write = None, Delete = None, List = None\<rparr>"

definition data_open :: Dir where
  "data_open = \<lparr>Config = \<lparr>Dir = ''/data'', Users = Map.empty, Log = log_all\<rparr>\<rparr>"

definition data_users :: Dir where
  "data_users =
     \<lparr>Config = \<lparr>Dir = ''/data'',
                Users = [''alice'' \<mapsto> no_policy\<lparr>Subdir := Some ''alice-home'', Write := Some False\<rparr>,
                         ''bob'' \<mapsto> no_policy,
                         ''carol'' \<mapsto> no_policy\<lparr>Write := Some False\<rparr>,
                         ''dave'' \<mapsto> no_policy\<lparr>Read := Some False\<rparr>],
                Log = log_all\<rparr>\<rparr>"

definition ctx_anonymous :: Context where
  "ctx_anonymous = None"

definition ctx_user :: "string \<Rightarrow> Context" where
  "ctx_user name = Some \<lparr>Username = name, Authenticated = True\<rparr>"

definition no_calls :: state where
  "no_calls = \<lparr>calls = [], logs = []\<rparr>"

section \<open>Notions used to state the properties\<close>

text \<open>
  A real path element: not empty, free of the separator, and neither \<open>.\<close> nor
  \<open>..\<close>. The two tests of the loop of \<open>Clean\<close> for a \<open>.\<close> and a \<open>..\<close> element
  at the head of the unread input get names.
\<close>

definition real_name :: "char \<Rightarrow> string \<Rightarrow> bool" where
  "real_name sep el \<longleftrightarrow> el \<noteq> [] \<and> sep \<notin> set el \<and> el \<noteq> ''.'' \<and> el \<noteq> ''..''"

definition at_dot :: "char \<Rightarrow> char \<Rightarrow> string \<Rightarrow> bool" where
  "at_dot sep c cs \<longleftrightarrow> c = CHR ''.'' \<and> (case cs of [] \<Rightarrow> True | c1 # x \<Rightarrow> c1 = sep)"

definition at_dotdot :: "char \<Rightarrow> char \<Rightarrow> string \<Rightarrow> bool" where
  "at_dotdot sep c cs \<longleftrightarrow>
     c = CHR ''.'' \<and>
     (case cs of [] \<Rightarrow> False
      | c1 # cs' \<Rightarrow> c1 = CHR ''.'' \<and> (case cs' of [] \<Rightarrow> True | c2 # x \<Rightarrow> c2 = sep))"

text \<open>
  The buffer of \<open>Clean\<close> after \<open>n\<close> leading \<open>..\<close> elements and the real elements
  \<open>els\<close>, and the states of the loop of that form, with the elements drawn from the
  characters \<open>A\<close>.
\<close>

definition render :: "char \<Rightarrow> bool \<Rightarrow> nat \<Rightarrow> string list \<Rightarrow> string" where
  "render sep rooted n els =
     (if rooted then [sep] else []) @ strings_Join (replicate n ''..'' @ els) [sep]"

definition clean_state :: "char \<Rightarrow> bool \<Rightarrow> char set \<Rightarrow> string \<times> nat \<Rightarrow> bool" where
  "clean_state sep rooted A st \<longleftrightarrow>
     (\<exists>n els. st = (render sep rooted n els, length (render sep rooted n [])) \<and>
        (\<forall>el \<in> set els. real_name sep el \<and> set el \<subseteq> A) \<and> (rooted \<longrightarrow> n = 0))"

text \<open>
  The elements of a path (\<open>strings.Split\<close> at the separator), and lexical containment:
  \<open>p\<close> is \<open>base\<close> itself or \<open>base\<close> followed by elements none of which is
  \<open>..\<close>; below the base \<open>.\<close> that is a relative path, below the root a rooted one.
\<close>

fun elements :: "char \<Rightarrow> string \<Rightarrow> string list" where
  "elements sep [] = [[]]"
| "elements sep (c # cs) =
     (if c = sep then [] # elements sep cs
      else (case elements sep cs of [] \<Rightarrow> [[c]] | e # es \<Rightarrow> (c # e) # es))"

definition lexically_within :: "char \<Rightarrow> string \<Rightarrow> string \<Rightarrow> bool" where
  "lexically_within sep base p \<longleftrightarrow>
     p = base \<or>
     (prefix (base @ [sep]) p \<and> ''..'' \<notin> set (elements sep (drop (length base + 1) p))) \<or>
     (base = [sep] \<and> prefix [sep] p \<and> ''..'' \<notin> set (elements sep (tl p))) \<or>
     (base = ''.'' \<and> p \<noteq> [] \<and> hd p \<noteq> sep \<and> ''..'' \<notin> set (elements sep p))"

text \<open>
  The directory a request is confined to: the root, or root/subdir when the request is
  authenticated and the policy of the user declares a subdirectory.
\<close>

definition resolve_base :: "char \<Rightarrow> Dir \<Rightarrow> Context \<Rightarrow> string" where
  "resolve_base sep d ctx =
     (case authenticated ctx of
        Some authInfo \<Rightarrow>
          (case Users (Config d) (Username authInfo) of
             Some userInfo \<Rightarrow>
               (case Subdir userInfo of
                  Some subdir \<Rightarrow>
                    filepath_Join sep [if Dir (Config d) = [] then ''.'' else Dir (Config d), subdir]
                | None \<Rightarrow> filepath_Clean sep (Dir (Config d)))
           | None \<Rightarrow> filepath_Clean sep (Dir (Config d)))
      | None \<Rightarrow> filepath_Clean sep (Dir (Config d)))"

text \<open>A call of \<open>os.RemoveAll\<close> or \<open>os.Rename\<close> that names the directory \<open>root\<close>.\<close>

fun names_root :: "string \<Rightarrow> syscall \<Rightarrow> bool" where
  "names_root root (Sys_RemoveAll name) = (name = root)"
| "names_root root (Sys_Rename oldName newName) = (oldName = root \<or> newName = root)"
| "names_root root c = False"

section \<open>Basic facts\<close>

lemmas path_eval = path_Clean_def clean_core_def clean_loop.simps(2) dotdot_elem_def real_elem_def
  backtrack.simps filepath_Clean_def filepath_FromSlash_def filepath_Join_def

lemmas scenario_eval = unix_files_def unix_dirs_def log_all_def no_policy_def data_open_def
  data_users_def ctx_anonymous_def ctx_user_def no_calls_def authenticated_def

lemma clean_core_nonempty: "clean_core sep p \<noteq> []"
  by (simp add: clean_core_def Let_def)

lemma filepath_FromSlash_Nil_iff: "filepath_FromSlash sep p = [] \<longleftrightarrow> p = []"
  by (simp add: filepath_FromSlash_def)

lemma filepath_Clean_nonempty: "filepath_Clean sep p \<noteq> []"
  by (simp add: filepath_Clean_def filepath_FromSlash_Nil_iff clean_core_nonempty)

lemma filepath_Join_nonempty: "e \<noteq> [] \<Longrightarrow> filepath_Join sep (e # es) \<noteq> []"
  by (simp add: filepath_Join_def filepath_Clean_nonempty)

lemma resolve_Nil_iff:
  "resolve sep d ctx name = [] \<longleftrightarrow> (sep \<noteq> CHR ''/'' \<and> sep \<in> set name) \<or> CHR 0x00 \<in> set name"
  by (simp add: resolve_def Let_def filepath_Join_nonempty split: option.splits)

lemma UserDir_resolve_Nil_iff:
  "UserDir_resolve sep d ctx name = [] \<longleftrightarrow> (sep \<noteq> CHR ''/'' \<and> sep \<in> set name) \<or> CHR 0x00 \<in> set name"
  by (simp add: UserDir_resolve_def Let_def filepath_Join_nonempty split: option.splits)

lemma has_unauthenticated:
  assumes "authenticated ctx = None"
  shows "hasRead ctx d = Return (dom (Users (Config d)) = {})"
    and "hasWrite ctx d = Return (dom (Users (Config d)) = {})"
    and "hasDelete ctx d = Return (dom (Users (Config d)) = {})"
    and "hasList ctx d = Return (dom (Users (Config d)) = {})"
  using assms by (simp_all add: hasRead_def hasWrite_def hasDelete_def hasList_def)

lemma has_policy:
  assumes "authenticated ctx = Some authInfo" and "Users (Config d) (Username authInfo) = Some userInfo"
  shows "hasRead ctx d = Return (case Read userInfo of None \<Rightarrow> True | Some b \<Rightarrow> b)"
    and "hasWrite ctx d = Return (case Write userInfo of None \<Rightarrow> True | Some b \<Rightarrow> b)"
    and "hasDelete ctx d = Return (case Delete userInfo of None \<Rightarrow> True | Some b \<Rightarrow> b)"
    and "hasList ctx d = Return (case List userInfo of None \<Rightarrow> True | Some b \<Rightarrow> b)"
  using assms by (simp_all add: hasRead_def hasWrite_def hasDelete_def hasList_def)

lemma has_no_policy:
  assumes "authenticated ctx = Some authInfo" and "Users (Config d) (Username authInfo) = None"
  shows "hasRead ctx d = NilDereference"
    and "hasWrite ctx d = NilDereference"
    and "hasDelete ctx d = NilDereference"
    and "hasList ctx d = NilDereference"
  using assms by (simp_all add: hasRead_def hasWrite_def hasDelete_def hasList_def)

text \<open>What each operation does once the permission checks are known.\<close>

lemma Mkdir_denied:
  "resolve (Separator pf) d ctx name \<noteq> [] \<Longrightarrow> hasWrite ctx d = Return False \<Longrightarrow>
   Mkdir pf d ctx name perm st = (Return (Some ErrPermission), st)"
  by (simp add: Mkdir_def Let_def)

lemma Rename_denied:
  "resolve (Separator pf) d ctx oldName \<noteq> [] \<Longrightarrow> resolve (Separator pf) d ctx newName \<noteq> [] \<Longrightarrow>
   hasWrite ctx d = Return False \<Longrightarrow>
   Rename pf d ctx oldName newName st = (Return (Some ErrPermission), st)"
  by (simp add: Rename_def Let_def)

lemma RemoveAll_denied:
  "resolve (Separator pf) d ctx name \<noteq> [] \<Longrightarrow>
   resolve (Separator pf) d ctx name \<noteq> filepath_Clean (Separator pf) (Dir (Config d)) \<Longrightarrow>
   hasDelete ctx d = Return False \<Longrightarrow>
   RemoveAll pf d ctx name st = (Return (Some ErrPermission), st)"
  by (simp add: RemoveAll_def Let_def)

lemma Stat_denied:
  "resolve (Separator pf) d ctx name \<noteq> [] \<Longrightarrow> hasList ctx d = Return False \<Longrightarrow>
   Stat pf d ctx name st = (Return (Inl ErrPermission), st)"
  by (simp add: Stat_def Let_def)

lemma OpenFile_write_denied:
  "resolve (Separator pf) d ctx name \<noteq> [] \<Longrightarrow> flag AND 3 \<noteq> 0 \<Longrightarrow> hasWrite ctx d = Return False \<Longrightarrow>
   OpenFile pf d ctx name flag perm st = (Return (Inl ErrPermission), st)"
  by (simp add: OpenFile_def Let_def)

lemma OpenFile_read_denied:
  "resolve (Separator pf) d ctx name \<noteq> [] \<Longrightarrow> flag AND 3 = 0 \<Longrightarrow> hasRead ctx d = Return False \<Longrightarrow>
   hasList ctx d = Return l \<Longrightarrow>
   fst (OpenFile pf d ctx name flag perm st) = Return (Inl ErrPermission)"
  by (simp add: OpenFile_def Let_def split: prod.splits)

lemma Stat_passes:
  "resolve (Separator pf) d ctx name = n \<Longrightarrow> n \<noteq> [] \<Longrightarrow> hasList ctx d = Return True \<Longrightarrow>
   Stat pf d ctx name st =
     (Return (case os_Stat pf (calls st) n of Inl e \<Rightarrow> Inl (OSError e) | Inr fi \<Rightarrow> Inr fi),
      st\<lparr>calls := calls st @ [Sys_Stat n]\<rparr>)"
  by (simp add: Stat_def Let_def call_Stat_def split: sum.splits)

lemma RemoveAll_passes:
  "resolve (Separator pf) d ctx name = n \<Longrightarrow> n \<noteq> [] \<Longrightarrow>
   n \<noteq> filepath_Clean (Separator pf) (Dir (Config d)) \<Longrightarrow> hasDelete ctx d = Return True \<Longrightarrow>
   RemoveAll pf d ctx name st =
     (Return (map_option OSError (os_RemoveAll pf (calls st) n)),
      st\<lparr>calls := calls st @ [Sys_RemoveAll n],
         logs := (if os_RemoveAll pf (calls st) n = None \<and> Log_Delete (Log (Config d))
                  then logs st @ [(''Deleted file or directory'',
                                   [(''path'', n), (''user'', resolveUser d ctx)])]
                  else logs st)\<rparr>)"
  by (auto simp add: RemoveAll_def Let_def call_RemoveAll_def log_Info_def split: option.splits)

lemma OpenFile_read_passes:
  "resolve (Separator pf) d ctx name = n \<Longrightarrow> n \<noteq> [] \<Longrightarrow> flag AND 3 = 0 \<Longrightarrow>
   hasRead ctx d = Return True \<Longrightarrow> hasList ctx d = Return True \<Longrightarrow>
   OpenFile pf d ctx name flag perm st =
     (Return (case os_OpenFile pf (calls st @ [Sys_Stat n]) n flag perm of
                Inl e \<Rightarrow> Inl (OSError e) | Inr f \<Rightarrow> Inr f),
      st\<lparr>calls := calls st @ [Sys_Stat n, Sys_OpenFile n flag perm],
         logs := (if (case os_OpenFile pf (calls st @ [Sys_Stat n]) n flag perm of
                        Inl e \<Rightarrow> False | Inr f \<Rightarrow> True) \<and> Log_Read (Log (Config d))
                  then logs st @ [(''Opened file'', [(''path'', n), (''user'', resolveUser d ctx)])]
                  else logs st)\<rparr>)"
  by (auto simp add: OpenFile_def OpenFile_open_def Let_def call_Stat_def call_OpenFile_def
      log_Info_def split: sum.splits)


section \<open>The permission gate\<close>

text \<open>
  C4: for an unauthenticated request each of the four permission checks answers whether
  the table of users is empty. With a user configured, every operation that reaches its
  permission check (its path resolves, and for \<open>RemoveAll\<close> is not the root) ends with
  \<open>ErrPermission\<close>.
\<close>

theorem unauthenticated_allowed_iff_no_users:
  assumes "authenticated ctx = None"
  shows "hasRead ctx d = Return (dom (Users (Config d)) = {}) \<and>
         hasWrite ctx d = Return (dom (Users (Config d)) = {}) \<and>
         hasDelete ctx d = Return (dom (Users (Config d)) = {}) \<and>
         hasList ctx d = Return (dom (Users (Config d)) = {}) \<and>
         (dom (Users (Config d)) \<noteq> {} \<longrightarrow>
            (resolve (Separator pf) d ctx name \<noteq> [] \<longrightarrow>
               Mkdir pf d ctx name perm st = (Return (Some ErrPermission), st) \<and>
               fst (OpenFile pf d ctx name flag perm st) = Return (Inl ErrPermission) \<and>
               Stat pf d ctx name st = (Return (Inl ErrPermission), st) \<and>
               (resolve (Separator pf) d ctx name \<noteq> filepath_Clean (Separator pf) (Dir (Config d)) \<longrightarrow>
                  RemoveAll pf d ctx name st = (Return (Some ErrPermission), st)) \<and>
               (resolve (Separator pf) d ctx newName \<noteq> [] \<longrightarrow>
                  Rename pf d ctx name newName st = (Return (Some ErrPermission), st))))"
proof -
  note h = has_unauthenticated [OF assms, of d]
  have "fst (OpenFile pf d ctx name flag perm st) = Return (Inl ErrPermission)"
    if "dom (Users (Config d)) \<noteq> {}" and "resolve (Separator pf) d ctx name \<noteq> []"
  proof (cases "flag AND 3 = 0")
    case True
    with that h show ?thesis by (simp add: OpenFile_read_denied)
  next
    case False
    with that h show ?thesis by (simp add: OpenFile_write_denied)
  qed
  with h show ?thesis
    by (simp add: Mkdir_denied Stat_denied RemoveAll_denied Rename_denied)
qed

theorem unauthenticated_allowed_iff_no_users_witness:
  "authenticated ctx_anonymous = None \<and>
   hasRead ctx_anonymous data_open = Return True \<and>
   hasWrite ctx_anonymous data_users = Return False \<and>
   Mkdir unix_files data_users ctx_anonymous ''/new'' 493 no_calls = (Return (Some ErrPermission), no_calls) \<and>
   fst (OpenFile unix_files data_users ctx_anonymous ''/new'' 0 493 no_calls) = Return (Inl ErrPermission) \<and>
   Stat unix_files data_users ctx_anonymous ''/new'' no_calls = (Return (Inl ErrPermission), no_calls) \<and>
   RemoveAll unix_files data_users ctx_anonymous ''/new'' no_calls = (Return (Some ErrPermission), no_calls) \<and>
   Rename unix_files data_users ctx_anonymous ''/new'' ''/old'' no_calls = (Return (Some ErrPermission), no_calls)"
proof -
  have a: "authenticated ctx_anonymous = None"
    by (simp add: scenario_eval)
  have r: "resolve (Separator unix_files) data_users ctx_anonymous ''/new'' = ''/data/new''"
    "resolve (Separator unix_files) data_users ctx_anonymous ''/old'' = ''/data/old''"
    "filepath_Clean (Separator unix_files) (Dir (Config data_users)) = ''/data''"
    by (simp_all add: resolve_def path_eval scenario_eval)
  have u: "dom (Users (Config data_users)) \<noteq> {}" "dom (Users (Config data_open)) = {}"
    by (simp_all add: scenario_eval)
  from unauthenticated_allowed_iff_no_users [OF a, where d = data_open]
    unauthenticated_allowed_iff_no_users [OF a, where d = data_users and pf = unix_files
      and name = "''/new''" and perm = 493 and st = no_calls and flag = 0 and newName = "''/old''"]
  show ?thesis
    using a r u by simp
qed

text \<open>
  C2: an authenticated request whose user name has no entry in the table should pass every
  permission check. In the code the looked-up policy is \<open>nil\<close> and each check reads a
  field of it: the check panics, and so does the operation that makes it.
\<close>

theorem missing_policy_entry_nil_dereference:
  "Users (Config data_users) ''mallory'' = None \<and>
   hasRead (ctx_user ''mallory'') data_users = NilDereference \<and>
   hasWrite (ctx_user ''mallory'') data_users = NilDereference \<and>
   hasDelete (ctx_user ''mallory'') data_users = NilDereference \<and>
   hasList (ctx_user ''mallory'') data_users = NilDereference \<and>
   Stat unix_files data_users (ctx_user ''mallory'') ''/x'' no_calls = (NilDereference, no_calls)"
  by (simp add: hasRead_def hasWrite_def hasDelete_def hasList_def Stat_def Let_def
      resolve_Nil_iff scenario_eval)

text \<open>
  C6: for an authenticated user with an entry, each check returns the flag of the entry, an
  unset flag counting as allowed. With \<open>write = false\<close> and nothing else set, on a path
  that resolves, \<open>Mkdir\<close>, \<open>OpenFile\<close> with a write intent and \<open>Rename\<close> end with
  \<open>ErrPermission\<close> and leave the state as it was. Reading (\<open>OpenFile\<close> read-only),
  listing (\<open>Stat\<close>) and deleting (\<open>RemoveAll\<close> below the root) go through: the
  operation makes its system call, returns what the file system answers, and logs a success
  when the configuration says so.
\<close>

theorem policy_flag_decides:
  assumes "authenticated ctx = Some authInfo"
    and "Users (Config d) (Username authInfo) = Some userInfo"
  shows "hasRead ctx d = Return (case Read userInfo of None \<Rightarrow> True | Some b \<Rightarrow> b) \<and>
         hasWrite ctx d = Return (case Write userInfo of None \<Rightarrow> True | Some b \<Rightarrow> b) \<and>
         hasDelete ctx d = Return (case Delete userInfo of None \<Rightarrow> True | Some b \<Rightarrow> b) \<and>
         hasList ctx d = Return (case List userInfo of None \<Rightarrow> True | Some b \<Rightarrow> b) \<and>
         (Write userInfo = Some False \<and> Read userInfo = None \<and> Delete userInfo = None \<and>
          List userInfo = None \<and> resolve (Separator pf) d ctx name = n \<and> n \<noteq> [] \<longrightarrow>
            Mkdir pf d ctx name perm st = (Return (Some ErrPermission), st) \<and>
            (flag AND 3 \<noteq> 0 \<longrightarrow>
               OpenFile pf d ctx name flag perm st = (Return (Inl ErrPermission), st)) \<and>
            (resolve (Separator pf) d ctx newName \<noteq> [] \<longrightarrow>
               Rename pf d ctx name newName st = (Return (Some ErrPermission), st)) \<and>
            (flag AND 3 = 0 \<longrightarrow>
               OpenFile pf d ctx name flag perm st =
                 (Return (case os_OpenFile pf (calls st @ [Sys_Stat n]) n flag perm of
                            Inl e \<Rightarrow> Inl (OSError e) | Inr f \<Rightarrow> Inr f),
                  st\<lparr>calls := calls st @ [Sys_Stat n, Sys_OpenFile n flag perm],
                     logs := (if (case os_OpenFile pf (calls st @ [Sys_Stat n]) n flag perm of
                                    Inl e \<Rightarrow> False | Inr f \<Rightarrow> True) \<and> Log_Read (Log (Config d))
                              then logs st @ [(''Opened file'',
                                               [(''path'', n), (''user'', resolveUser d ctx)])]
                              else logs st)\<rparr>)) \<and>
            Stat pf d ctx name st =
              (Return (case os_Stat pf (calls st) n of Inl e \<Rightarrow> Inl (OSError e) | Inr fi \<Rightarrow> Inr fi),
               st\<lparr>calls := calls st @ [Sys_Stat n]\<rparr>) \<and>
            (n \<noteq> filepath_Clean (Separator pf) (Dir (Config d)) \<longrightarrow>
               RemoveAll pf d ctx name st =
                 (Return (map_option OSError (os_RemoveAll pf (calls st) n)),
                  st\<lparr>calls := calls st @ [Sys_RemoveAll n],
                     logs := (if os_RemoveAll pf (calls st) n = None \<and> Log_Delete (Log (Config d))
                              then logs st @ [(''Deleted file or directory'',
                                               [(''path'', n), (''user'', resolveUser d ctx)])]
                              else logs st)\<rparr>)))"
proof -
  note h = has_policy [OF assms]
  have denied: "Mkdir pf d ctx name perm st = (Return (Some ErrPermission), st)"
      "flag AND 3 \<noteq> 0 \<longrightarrow> OpenFile pf d ctx name flag perm st = (Return (Inl ErrPermission), st)"
      "resolve (Separator pf) d ctx newName \<noteq> [] \<longrightarrow>
         Rename pf d ctx name newName st = (Return (Some ErrPermission), st)"
    if "Write userInfo = Some False" and "resolve (Separator pf) d ctx name = n" and "n \<noteq> []"
    using that h(2) by (simp_all add: Mkdir_denied OpenFile_write_denied Rename_denied)
  have allowed: "hasRead ctx d = Return True" "hasList ctx d = Return True" "hasDelete ctx d = Return True"
    if "Read userInfo = None" and "Delete userInfo = None" and "List userInfo = None"
    using that h by simp_all
  show ?thesis
    using h denied OpenFile_read_passes [of pf d ctx name n flag, OF _ _ _ allowed(1,2)]
      Stat_passes [of pf d ctx name n, OF _ _ allowed(2)]
      RemoveAll_passes [of pf d ctx name n, OF _ _ _ allowed(3)]
    by blast
qed

theorem policy_flag_decides_witness:
  "authenticated (ctx_user ''carol'') = Some \<lparr>Username = ''carol'', Authenticated = True\<rparr> \<and>
   Users (Config data_users) ''carol'' = Some (no_policy\<lparr>Write := Some False\<rparr>) \<and>
   hasRead (ctx_user ''carol'') data_users = Return True \<and>
   hasWrite (ctx_user ''carol'') data_users = Return False \<and>
   hasDelete (ctx_user ''carol'') data_users = Return True \<and>
   hasList (ctx_user ''carol'') data_users = Return True \<and>
   Mkdir unix_files data_users (ctx_user ''carol'') ''/new'' 493 no_calls
     = (Return (Some ErrPermission), no_calls) \<and>
   OpenFile unix_files data_users (ctx_user ''carol'') ''/new'' 1 493 no_calls
     = (Return (Inl ErrPermission), no_calls) \<and>
   Rename unix_files data_users (ctx_user ''carol'') ''/new'' ''/old'' no_calls
     = (Return (Some ErrPermission), no_calls) \<and>
   OpenFile unix_files data_users (ctx_user ''carol'') ''/new'' 0 0 no_calls
     = (Return (Inr 3),
        \<lparr>calls = [Sys_Stat ''/data/new'', Sys_OpenFile ''/data/new'' 0 0],
         logs = [(''Opened file'', [(''path'', ''/data/new''), (''user'', ''carol'')])]\<rparr>) \<and>
   Stat unix_files data_users (ctx_user ''carol'') ''/new'' no_calls
     = (Return (Inr \<lparr>Name = ''/data/new'', Size = 0, IsDir = False\<rparr>),
        \<lparr>calls = [Sys_Stat ''/data/new''], logs = []\<rparr>) \<and>
   RemoveAll unix_files data_users (ctx_user ''carol'') ''/new'' no_calls
     = (Return None,
        \<lparr>calls = [Sys_RemoveAll ''/data/new''],
         logs = [(''Deleted file or directory'', [(''path'', ''/data/new''), (''user'', ''carol'')])]\<rparr>)"
proof -
  have a: "authenticated (ctx_user ''carol'') = Some \<lparr>Username = ''carol'', Authenticated = True\<rparr>"
    by (simp add: scenario_eval)
  have u: "Users (Config data_users) (Username \<lparr>Username = ''carol'', Authenticated = True\<rparr>)
            = Some (no_policy\<lparr>Write := Some False\<rparr>)"
    by (simp add: scenario_eval)
  have r: "resolve (Separator unix_files) data_users (ctx_user ''carol'') ''/new'' = ''/data/new''"
    "resolve (Separator unix_files) data_users (ctx_user ''carol'') ''/old'' = ''/data/old''"
    "filepath_Clean (Separator unix_files) (Dir (Config data_users)) = ''/data''"
    by (simp_all add: resolve_def path_eval scenario_eval)
  have f: "Write (no_policy\<lparr>Write := Some False\<rparr>) = Some False"
    "Read (no_policy\<lparr>Write := Some False\<rparr>) = None"
    "Delete (no_policy\<lparr>Write := Some False\<rparr>) = None"
    "List (no_policy\<lparr>Write := Some False\<rparr>) = None"
    by (simp_all add: no_policy_def)
  have e: "os_OpenFile unix_files h ''/data/new'' 0 0 = Inr 3"
    "os_Stat unix_files h ''/data/new'' = Inr \<lparr>Name = ''/data/new'', Size = 0, IsDir = False\<rparr>"
    "os_RemoveAll unix_files h ''/data/new'' = None"
    "Log_Read (Log (Config data_users))" "Log_Delete (Log (Config data_users))"
    "resolveUser data_users (ctx_user ''carol'') = ''carol''"
    "no_calls\<lparr>calls := c, logs := l\<rparr> = \<lparr>calls = c, logs = l\<rparr>"
    "no_calls\<lparr>calls := c\<rparr> = \<lparr>calls = c, logs = []\<rparr>"
    "calls no_calls = []" "logs no_calls = []" for h c l
    by (simp_all add: resolveUser_def scenario_eval)
  from policy_flag_decides [OF a u, where pf = unix_files and name = "''/new''" and perm = 493
      and st = no_calls and flag = 1 and newName = "''/old''" and n = "''/data/new''"]
    policy_flag_decides [OF a u, where pf = unix_files and name = "''/new''" and perm = 0
      and st = no_calls and flag = 0 and newName = "''/old''" and n = "''/data/new''"]
  show ?thesis
    using a u r f e by simp
qed

lemma Mkdir_NotExist_iff:
  "fst (Mkdir pf d ctx name perm st) = Return (Some ErrNotExist) \<longleftrightarrow>
     resolve (Separator pf) d ctx name = []"
  by (simp add: Mkdir_def Let_def call_Mkdir_def split: outcome.splits option.splits)

lemma Stat_NotExist_iff:
  "fst (Stat pf d ctx name st) = Return (Inl ErrNotExist) \<longleftrightarrow>
     resolve (Separator pf) d ctx name = []"
  by (simp add: Stat_def Let_def call_Stat_def split: outcome.splits sum.splits)

lemma RemoveAll_NotExist_iff:
  "fst (RemoveAll pf d ctx name st) = Return (Some ErrNotExist) \<longleftrightarrow>
     resolve (Separator pf) d ctx name = []"
  by (simp add: RemoveAll_def Let_def call_RemoveAll_def split: outcome.splits option.splits)

lemma Rename_NotExist_iff:
  "fst (Rename pf d ctx oldName newName st) = Return (Some ErrNotExist) \<longleftrightarrow>
     resolve (Separator pf) d ctx oldName = [] \<or> resolve (Separator pf) d ctx newName = []"
  by (simp add: Rename_def Let_def call_Rename_def split: outcome.splits option.splits)

lemma OpenFile_open_not_NotExist:
  "fst (OpenFile_open pf d ctx name flag perm st) \<noteq> Return (Inl ErrNotExist)"
  by (simp add: OpenFile_open_def call_OpenFile_def split: sum.splits)

lemma OpenFile_NotExist_iff:
  "fst (OpenFile pf d ctx name flag perm st) = Return (Inl ErrNotExist) \<longleftrightarrow>
     resolve (Separator pf) d ctx name = []"
  by (simp add: OpenFile_def Let_def call_Stat_def OpenFile_open_not_NotExist
      split: outcome.splits sum.splits)

section \<open>Cleaning paths\<close>

subsection \<open>The loop, branch by branch\<close>

lemma takeWhile_upto_sep:
  "takeWhile (\<lambda>x. x \<noteq> sep) (xs @ sep # ys) = takeWhile (\<lambda>x. x \<noteq> sep) xs"
  by (induction xs) auto

lemma dropWhile_upto_sep:
  "dropWhile (\<lambda>x. x \<noteq> sep) (xs @ sep # ys) = dropWhile (\<lambda>x. x \<noteq> sep) xs @ sep # ys"
  by (induction xs) auto

lemma clean_loop_sep: "clean_loop sep r (sep # ys) st = clean_loop sep r ys st"
  by (simp add: clean_loop.simps(2))

lemma clean_loop_dot:
  "c \<noteq> sep \<Longrightarrow> at_dot sep c cs \<Longrightarrow> clean_loop sep r (c # cs) st = clean_loop sep r cs st"
  by (simp add: clean_loop.simps(2) at_dot_def)

lemma clean_loop_dotdot:
  "c \<noteq> sep \<Longrightarrow> \<not> at_dot sep c cs \<Longrightarrow> at_dotdot sep c cs \<Longrightarrow>
   clean_loop sep r (c # cs) st = clean_loop sep r (tl cs) (dotdot_elem sep r st)"
  by (simp add: clean_loop.simps(2) at_dot_def at_dotdot_def)

lemma clean_loop_elem:
  "c \<noteq> sep \<Longrightarrow> \<not> at_dot sep c cs \<Longrightarrow> \<not> at_dotdot sep c cs \<Longrightarrow>
   clean_loop sep r (c # cs) st =
     clean_loop sep r (dropWhile (\<lambda>x. x \<noteq> sep) cs)
       (real_elem sep r (c # takeWhile (\<lambda>x. x \<noteq> sep) cs) st)"
  by (auto simp add: clean_loop.simps(2) at_dot_def at_dotdot_def)

lemma at_dot_append: "at_dot sep c (cs @ sep # ys) = at_dot sep c cs"
  by (cases cs) (simp_all add: at_dot_def)

lemma at_dotdot_append:
  "\<not> at_dot sep c cs \<Longrightarrow> at_dotdot sep c (cs @ sep # ys) = at_dotdot sep c cs"
proof (cases cs)
  case Nil
  assume "\<not> at_dot sep c cs"
  with Nil show ?thesis by (simp add: at_dot_def at_dotdot_def)
next
  case (Cons c1 cs')
  then show ?thesis by (cases cs') (simp_all add: at_dotdot_def)
qed

lemma clean_loop_append:
  "clean_loop sep r (xs @ sep # ys) st = clean_loop sep r ys (clean_loop sep r xs st)"
proof (induction sep r xs st rule: clean_loop.induct)
  case (1 sep rooted st)
  show ?case by (simp add: clean_loop_sep)
next
  case (2 sep rooted c cs st)
  show ?case
  proof (cases "c = sep")
    case True
    with "2.IH"(1) show ?thesis
      by (simp add: clean_loop_sep)
  next
    case ns: False
    show ?thesis
    proof (cases "at_dot sep c cs")
      case True
      then have "at_dot sep c (cs @ sep # ys)"
        by (simp add: at_dot_append)
      with ns True "2.IH"(2) show ?thesis
        by (simp add: clean_loop_dot at_dot_def)
    next
      case nd: False
      then have nd': "\<not> at_dot sep c (cs @ sep # ys)"
        by (simp add: at_dot_append)
      show ?thesis
      proof (cases "at_dotdot sep c cs")
        case True
        then have ne: "cs \<noteq> []" by (auto simp add: at_dotdot_def)
        then have t: "tl (cs @ sep # ys) = tl cs @ sep # ys" by simp
        from True nd have dd': "at_dotdot sep c (cs @ sep # ys)"
          by (simp add: at_dotdot_append)
        have "clean_loop sep rooted ((c # cs) @ sep # ys) st
            = clean_loop sep rooted (tl cs @ sep # ys) (dotdot_elem sep rooted st)"
          using clean_loop_dotdot [OF ns nd' dd'] t by simp
        also have "\<dots> = clean_loop sep rooted ys
            (clean_loop sep rooted (tl cs) (dotdot_elem sep rooted st))"
          using "2.IH"(3) ns nd True by (simp add: at_dot_def at_dotdot_def)
        also have "\<dots> = clean_loop sep rooted ys (clean_loop sep rooted (c # cs) st)"
          using clean_loop_dotdot [OF ns nd True] by simp
        finally show ?thesis .
      next
        case ndd: False
        with nd have ndd': "\<not> at_dotdot sep c (cs @ sep # ys)"
          by (simp add: at_dotdot_append)
        let ?el = "c # takeWhile (\<lambda>x. x \<noteq> sep) cs"
        have "clean_loop sep rooted ((c # cs) @ sep # ys) st
            = clean_loop sep rooted (dropWhile (\<lambda>x. x \<noteq> sep) cs @ sep # ys)
                (real_elem sep rooted ?el st)"
          using clean_loop_elem [OF ns nd' ndd']
          by (simp add: takeWhile_upto_sep dropWhile_upto_sep)
        also have "\<dots> = clean_loop sep rooted ys
            (clean_loop sep rooted (dropWhile (\<lambda>x. x \<noteq> sep) cs) (real_elem sep rooted ?el st))"
          using "2.IH"(4) ns nd ndd by (simp add: at_dot_def at_dotdot_def)
        also have "\<dots> = clean_loop sep rooted ys (clean_loop sep rooted (c # cs) st)"
          using clean_loop_elem [OF ns nd ndd] by simp
        finally show ?thesis .
      qed
    qed
  qed
qed

lemma real_name_not_dot:
  assumes "real_name sep (c # cs)"
  shows "c \<noteq> sep" and "\<not> at_dot sep c cs" and "\<not> at_dotdot sep c cs"
proof -
  from assms show "c \<noteq> sep"
    by (auto simp add: real_name_def)
  from assms show "\<not> at_dot sep c cs"
    by (cases cs) (auto simp add: real_name_def at_dot_def)
  show "\<not> at_dotdot sep c cs"
  proof (cases cs)
    case Nil
    then show ?thesis by (simp add: at_dotdot_def)
  next
    case (Cons c1 cs')
    with assms show ?thesis
      by (cases cs') (auto simp add: real_name_def at_dotdot_def)
  qed
qed

lemma clean_loop_real:
  assumes "real_name sep el"
  shows "clean_loop sep r el st = real_elem sep r el st"
proof -
  from assms obtain c cs where el: "el = c # cs"
    by (cases el) (auto simp add: real_name_def)
  from assms el have "\<forall>x \<in> set cs. x \<noteq> sep"
    by (auto simp add: real_name_def)
  then have tw: "takeWhile (\<lambda>x. x \<noteq> sep) cs = cs" "dropWhile (\<lambda>x. x \<noteq> sep) cs = []"
    by simp_all
  from real_name_not_dot [OF assms [unfolded el]] show ?thesis
    unfolding el by (simp add: clean_loop_elem tw)
qed

text \<open>In the default case of the loop the element copied is a real name.\<close>

lemma elem_real_name:
  assumes "c \<noteq> sep" and "\<not> at_dot sep c cs" and "\<not> at_dotdot sep c cs"
  shows "real_name sep (c # takeWhile (\<lambda>x. x \<noteq> sep) cs)"
proof -
  have s: "sep \<notin> set (takeWhile (\<lambda>x. x \<noteq> sep) cs)"
    by (auto dest: set_takeWhileD)
  have d1: "c # takeWhile (\<lambda>x. x \<noteq> sep) cs \<noteq> ''.''"
    using assms(2) by (cases cs) (auto simp add: at_dot_def)
  have d2: "c # takeWhile (\<lambda>x. x \<noteq> sep) cs \<noteq> ''..''"
  proof (cases cs)
    case Nil
    then show ?thesis by simp
  next
    case (Cons c1 cs')
    with assms(3) show ?thesis
      by (cases cs') (auto simp add: at_dotdot_def split: if_splits)
  qed
  from assms(1) s d1 d2 show ?thesis
    by (simp add: real_name_def)
qed

subsection \<open>Joining\<close>

lemma strings_Join_snoc:
  "strings_Join (es @ [e]) s = (if es = [] then e else strings_Join es s @ s @ e)"
  by (induction es s rule: strings_Join.induct) simp_all

lemma strings_Join_Cons:
  "strings_Join (e # es) s = (if es = [] then e else e @ s @ strings_Join es s)"
  by (cases es) simp_all

lemma strings_Join_append:
  "strings_Join (es @ fs) s =
     (if es = [] then strings_Join fs s else if fs = [] then strings_Join es s
      else strings_Join es s @ s @ strings_Join fs s)"
  by (induction es) (simp_all add: strings_Join_Cons)

lemma strings_Join_Nil_iff:
  "\<forall>e \<in> set es. e \<noteq> [] \<Longrightarrow> strings_Join es s = [] \<longleftrightarrow> es = []"
  by (cases es) (auto simp add: strings_Join_Cons)

lemma render_Nil_iff:
  assumes "\<forall>el \<in> set els. el \<noteq> []"
  shows "render sep rooted n els = [] \<longleftrightarrow> \<not> rooted \<and> n = 0 \<and> els = []"
proof -
  from assms have "\<forall>e \<in> set (replicate n ''..'' @ els). e \<noteq> []"
    by auto
  from strings_Join_Nil_iff [OF this] show ?thesis
    by (simp add: render_def)
qed

subsection \<open>Backtracking\<close>

lemma backtrack_stops:
  assumes "sep \<notin> set c" and "x = sep \<or> length P = d" and "d \<le> length P"
  shows "backtrack sep d (P @ x # c @ rest) (length P + length c) = length P"
  using assms(1)
proof (induction c arbitrary: rest rule: rev_induct)
  case Nil
  from assms(2) show ?case
    by (subst backtrack.simps) auto
next
  case (snoc y c)
  from snoc.prems have y: "y \<noteq> sep" and c: "sep \<notin> set c"
    by auto
  have i: "(P @ x # (c @ [y]) @ rest) ! (length P + length (c @ [y])) = y"
    by (simp add: nth_append)
  have "backtrack sep d (P @ x # (c @ [y]) @ rest) (length P + length (c @ [y]))
      = backtrack sep d (P @ x # (c @ [y]) @ rest) (length P + length c)"
    using assms(3) y i by (subst backtrack.simps) simp
  also have "\<dots> = length P"
    using snoc.IH [OF c, of "y # rest"] by simp
  finally show ?case .
qed

subsection \<open>The steps of the loop on rendered states\<close>

lemma real_elem_render:
  assumes "\<forall>e \<in> set els. e \<noteq> []"
  shows "real_elem sep rooted el (render sep rooted n els, d) = (render sep rooted n (els @ [el]), d)"
proof -
  let ?L = "replicate n ''..'' @ els"
  from assms have ne: "\<forall>e \<in> set ?L. e \<noteq> []"
    by auto
  have len: "length (render sep rooted n els) = (if rooted then 1 else 0) + length (strings_Join ?L [sep])"
    by (simp add: render_def)
  have need: "(rooted \<and> length (render sep rooted n els) \<noteq> 1 \<or>
               \<not> rooted \<and> length (render sep rooted n els) \<noteq> 0) \<longleftrightarrow> ?L \<noteq> []"
    using strings_Join_Nil_iff [OF ne, of "[sep]"] by (auto simp add: len)
  have "strings_Join (?L @ [el]) [sep] = (if ?L = [] then el else strings_Join ?L [sep] @ [sep] @ el)"
    by (rule strings_Join_snoc)
  then have r: "render sep rooted n (els @ [el])
      = (if ?L = [] then render sep rooted n els @ el else render sep rooted n els @ [sep] @ el)"
    by (auto simp add: render_def)
  show ?thesis
    unfolding real_elem_def prod.case need r by auto
qed

lemma dotdot_elem_push:
  "dotdot_elem sep False (render sep False n [], length (render sep False n []))
     = (render sep False (Suc n) [], length (render sep False (Suc n) []))"
proof -
  have "strings_Join (replicate n ''..'' @ [''..'']) [sep]
      = (if replicate n ''..'' = [] then ''..'' else strings_Join (replicate n ''..'') [sep] @ [sep] @ ''..'')"
    by (rule strings_Join_snoc)
  moreover have "replicate n ''..'' @ [''..''] = replicate (Suc n) ''..''"
    by (simp add: replicate_append_same)
  moreover have "strings_Join (replicate n ''..'') [sep] = [] \<longleftrightarrow> n = 0"
    using strings_Join_Nil_iff [of "replicate n ''..''" "[sep]"] by auto
  ultimately show ?thesis
    by (auto simp add: dotdot_elem_def render_def Let_def)
qed

lemma dotdot_elem_rooted_empty:
  "dotdot_elem sep True (render sep True 0 [], length (render sep True 0 [])) =
     (render sep True 0 [], length (render sep True 0 []))"
  by (simp add: dotdot_elem_def render_def)

lemma render_prefix_length:
  "length (render sep rooted n []) \<le> length (render sep rooted n els)"
  by (simp add: render_def strings_Join_append)

lemma dotdot_elem_pop:
  assumes "real_name sep el"
  shows "dotdot_elem sep rooted (render sep rooted n (els @ [el]), length (render sep rooted n []))
     = (render sep rooted n els, length (render sep rooted n []))"
proof -
  let ?L = "replicate n ''..'' @ els"
  let ?d = "length (render sep rooted n [])"
  let ?P = "render sep rooted n els"
  from assms obtain x c where el: "el = x # c" and c: "sep \<notin> set c" and x: "x \<noteq> sep"
    by (cases el) (auto simp add: real_name_def)
  have d: "?d \<le> length ?P"
    by (rule render_prefix_length)
  have j: "strings_Join (?L @ [el]) [sep] = (if ?L = [] then el else strings_Join ?L [sep] @ [sep] @ el)"
    by (rule strings_Join_snoc)
  show ?thesis
  proof (cases "?L = []")
    case True
    then have out: "render sep rooted n (els @ [el]) = ?P @ x # c @ []" and P: "length ?P = ?d"
      using j el by (simp_all add: render_def)
    have "backtrack sep ?d (?P @ x # c @ []) (length ?P + length c) = length ?P"
      using P d by (intro backtrack_stops [OF c]) simp_all
    then show ?thesis
      unfolding out dotdot_elem_def prod.case using P by simp
  next
    case False
    then have out: "render sep rooted n (els @ [el]) = ?P @ sep # el @ []"
      using j by (simp add: render_def)
    from assms have s: "sep \<notin> set el"
      by (simp add: real_name_def)
    have "backtrack sep ?d (?P @ sep # el @ []) (length ?P + length el) = length ?P"
      using d by (intro backtrack_stops [OF s]) simp_all
    then show ?thesis
      unfolding out dotdot_elem_def prod.case using d by simp
  qed
qed

lemma clean_state_init: "clean_state sep rooted A (if rooted then ([sep], 1) else ([], 0))"
  unfolding clean_state_def
  by (rule exI [of _ 0], rule exI [of _ "[]"]) (simp add: render_def)

lemma clean_state_real_elem:
  assumes "clean_state sep rooted A st" and "real_name sep el" and "set el \<subseteq> A"
  shows "clean_state sep rooted A (real_elem sep rooted el st)"
proof -
  from assms(1) obtain n els where st: "st = (render sep rooted n els, length (render sep rooted n []))"
    and els: "\<forall>el \<in> set els. real_name sep el \<and> set el \<subseteq> A" and r: "rooted \<longrightarrow> n = 0"
    unfolding clean_state_def by blast
  from els have "\<forall>e \<in> set els. e \<noteq> []"
    by (auto simp add: real_name_def)
  from real_elem_render [OF this, of sep rooted el n] st
  have "real_elem sep rooted el st = (render sep rooted n (els @ [el]), length (render sep rooted n []))"
    by simp
  moreover from els assms(2,3) have "\<forall>e \<in> set (els @ [el]). real_name sep e \<and> set e \<subseteq> A"
    by auto
  ultimately show ?thesis
    unfolding clean_state_def using r by blast
qed

lemma clean_state_dotdot_elem:
  assumes "clean_state sep rooted A st"
  shows "clean_state sep rooted A (dotdot_elem sep rooted st)"
proof -
  from assms obtain n els where st: "st = (render sep rooted n els, length (render sep rooted n []))"
    and els: "\<forall>el \<in> set els. real_name sep el \<and> set el \<subseteq> A" and r: "rooted \<longrightarrow> n = 0"
    unfolding clean_state_def by blast
  show ?thesis
  proof (cases els rule: rev_cases)
    case Nil
    show ?thesis
    proof (cases rooted)
      case True
      with r Nil st have "dotdot_elem sep rooted st = st"
        using dotdot_elem_rooted_empty [of sep] by simp
      with assms show ?thesis by simp
    next
      case False
      with Nil st have "dotdot_elem sep rooted st
          = (render sep rooted (Suc n) [], length (render sep rooted (Suc n) []))"
        using dotdot_elem_push [of sep n] by simp
      with False show ?thesis
        unfolding clean_state_def by (intro exI [of _ "Suc n"] exI [of _ "[]"]) simp
    qed
  next
    case (snoc els' el)
    with els have "real_name sep el"
      by simp
    from dotdot_elem_pop [OF this, of rooted n els'] snoc st
    have "dotdot_elem sep rooted st = (render sep rooted n els', length (render sep rooted n []))"
      by simp
    moreover from els snoc have "\<forall>el \<in> set els'. real_name sep el \<and> set el \<subseteq> A"
      by simp
    ultimately show ?thesis
      unfolding clean_state_def using r by blast
  qed
qed

lemma clean_state_loop:
  "clean_state sep rooted A st \<Longrightarrow> set xs \<subseteq> A \<Longrightarrow> clean_state sep rooted A (clean_loop sep rooted xs st)"
proof (induction sep rooted xs st rule: clean_loop.induct)
  case (1 sep rooted st)
  then show ?case by simp
next
  case (2 sep rooted c cs st)
  from "2.prems"(2) have cs: "set cs \<subseteq> A" and cA: "c \<in> A"
    by auto
  show ?case
  proof (cases "c = sep")
    case True
    with "2.IH"(1) "2.prems"(1) cs show ?thesis
      by (simp add: clean_loop_sep)
  next
    case ns: False
    show ?thesis
    proof (cases "at_dot sep c cs")
      case True
      with ns "2.IH"(2) "2.prems"(1) cs show ?thesis
        by (simp add: clean_loop_dot at_dot_def)
    next
      case nd: False
      show ?thesis
      proof (cases "at_dotdot sep c cs")
        case True
        from cs have "set (tl cs) \<subseteq> A"
          by (cases cs) auto
        with "2.IH"(3) ns nd True clean_state_dotdot_elem [OF "2.prems"(1)]
        have "clean_state sep rooted A (clean_loop sep rooted (tl cs) (dotdot_elem sep rooted st))"
          by (simp add: at_dot_def at_dotdot_def)
        then show ?thesis
          using clean_loop_dotdot [OF ns nd True] by simp
      next
        case ndd: False
        let ?el = "c # takeWhile (\<lambda>x. x \<noteq> sep) cs"
        have "set ?el \<subseteq> A"
          using cA cs by (auto dest: set_takeWhileD)
        with elem_real_name [OF ns nd ndd] "2.prems"(1)
        have "clean_state sep rooted A (real_elem sep rooted ?el st)"
          by (intro clean_state_real_elem)
        moreover have "set (dropWhile (\<lambda>x. x \<noteq> sep) cs) \<subseteq> A"
          using cs by (auto dest: set_dropWhileD)
        ultimately
        have "clean_state sep rooted A
            (clean_loop sep rooted (dropWhile (\<lambda>x. x \<noteq> sep) cs) (real_elem sep rooted ?el st))"
          using "2.IH"(4) ns nd ndd by (simp add: at_dot_def at_dotdot_def)
        then show ?thesis
          using clean_loop_elem [OF ns nd ndd] by simp
      qed
    qed
  qed
qed

text \<open>A list of real names, joined, is read back by the loop name by name.\<close>

lemma clean_loop_joined:
  "\<forall>el \<in> set els. real_name sep el \<Longrightarrow>
   clean_loop sep rooted (strings_Join els [sep]) st = foldl (\<lambda>s el. real_elem sep rooted el s) st els"
proof (induction els arbitrary: st)
  case Nil
  then show ?case by simp
next
  case (Cons el els)
  show ?case
  proof (cases "els = []")
    case True
    with Cons.prems show ?thesis
      by (simp add: clean_loop_real)
  next
    case False
    then have "strings_Join (el # els) [sep] = el @ sep # strings_Join els [sep]"
      by (simp add: strings_Join_Cons)
    with Cons show ?thesis
      by (simp add: clean_loop_append clean_loop_real)
  qed
qed

lemma foldl_real_elem_render:
  "\<forall>e \<in> set els. e \<noteq> [] \<Longrightarrow> \<forall>e \<in> set fs. e \<noteq> [] \<Longrightarrow>
   foldl (\<lambda>s el. real_elem sep rooted el s) (render sep rooted n els, d) fs
     = (render sep rooted n (els @ fs), d)"
proof (induction fs arbitrary: els)
  case Nil
  then show ?case by simp
next
  case (Cons f fs)
  from Cons.prems have "\<forall>e \<in> set (els @ [f]). e \<noteq> []" and "\<forall>e \<in> set fs. e \<noteq> []"
    by auto
  from Cons.IH [OF this] real_elem_render [OF Cons.prems(1), of sep rooted f n d] show ?case
    by simp
qed

subsection \<open>Elements of a joined path\<close>

lemma elements_no_sep: "sep \<notin> set e \<Longrightarrow> elements sep e = [e]"
  by (induction e) auto

lemma elements_append_sep: "sep \<notin> set e \<Longrightarrow> elements sep (e @ sep # rest) = e # elements sep rest"
  by (induction e) auto

lemma elements_joined:
  "els \<noteq> [] \<Longrightarrow> \<forall>e \<in> set els. sep \<notin> set e \<Longrightarrow> elements sep (strings_Join els [sep]) = els"
proof (induction els)
  case Nil
  then show ?case by simp
next
  case (Cons el els)
  then show ?case
    by (cases "els = []") (simp_all add: strings_Join_Cons elements_no_sep elements_append_sep)
qed

subsection \<open>Cleaning a path and a path extended by real names\<close>

lemma clean_core_rooted:
  "\<exists>els. clean_core sep (sep # name) = sep # strings_Join els [sep] \<and>
         (\<forall>el \<in> set els. real_name sep el \<and> set el \<subseteq> set name)"
proof -
  have "clean_state sep True (set name) (clean_loop sep True name ([sep], 1))"
    using clean_state_loop [OF clean_state_init [of sep True "set name"], of name] by simp
  then obtain n els where st: "clean_loop sep True name ([sep], 1)
        = (render sep True n els, length (render sep True n []))"
    and els: "\<forall>el \<in> set els. real_name sep el \<and> set el \<subseteq> set name" and n: "n = 0"
    unfolding clean_state_def by blast
  from st n have "clean_core sep (sep # name) = sep # strings_Join els [sep]"
    by (simp add: clean_core_def render_def)
  with els show ?thesis
    by blast
qed

lemma clean_core_extend:
  assumes "X \<noteq> []" and "\<forall>el \<in> set fs. real_name sep el"
  shows "\<exists>rooted n els.
           (\<forall>el \<in> set els. real_name sep el) \<and> (rooted \<longrightarrow> n = 0) \<and>
           clean_core sep X = (if render sep rooted n els = [] then ''.'' else render sep rooted n els) \<and>
           clean_core sep (X @ sep # sep # strings_Join fs [sep])
             = (if render sep rooted n (els @ fs) = [] then ''.'' else render sep rooted n (els @ fs))"
proof -
  let ?r = "hd X = sep"
  let ?X' = "if ?r then tl X else X"
  let ?init = "if ?r then ([sep], 1) else ([], 0)"
  have "clean_state sep ?r UNIV (clean_loop sep ?r ?X' ?init)"
    using clean_state_loop [OF clean_state_init [of sep ?r UNIV], of ?X'] by simp
  then obtain n els where st: "clean_loop sep ?r ?X' ?init
        = (render sep ?r n els, length (render sep ?r n []))"
    and els: "\<forall>el \<in> set els. real_name sep el" and n: "?r \<longrightarrow> n = 0"
    unfolding clean_state_def by auto
  have a: "clean_core sep X = (if render sep ?r n els = [] then ''.'' else render sep ?r n els)"
    using assms(1) st by (simp add: clean_core_def Let_def)
  let ?T = "sep # strings_Join fs [sep]"
  from assms(1) have h: "hd (X @ sep # ?T) = hd X"
    and t: "(if ?r then tl (X @ sep # ?T) else X @ sep # ?T) = ?X' @ sep # ?T"
    by simp_all
  have ne: "\<forall>e \<in> set els. e \<noteq> []" "\<forall>e \<in> set fs. e \<noteq> []"
    using els assms(2) by (auto simp add: real_name_def)
  have "clean_loop sep ?r (?X' @ sep # ?T) ?init
      = clean_loop sep ?r ?T (render sep ?r n els, length (render sep ?r n []))"
    using st by (simp only: clean_loop_append)
  also have "\<dots> = (render sep ?r n (els @ fs), length (render sep ?r n []))"
    using clean_loop_joined [OF assms(2)] foldl_real_elem_render [OF ne]
    by (simp add: clean_loop_sep)
  finally have "clean_core sep (X @ sep # ?T)
      = (if render sep ?r n (els @ fs) = [] then ''.'' else render sep ?r n (els @ fs))"
    unfolding clean_core_def Let_def h t by simp
  with a els n show ?thesis
    by blast
qed

subsection \<open>From slashes to the separator\<close>

lemma FromSlash_append:
  "filepath_FromSlash sep (xs @ ys) = filepath_FromSlash sep xs @ filepath_FromSlash sep ys"
  by (simp add: filepath_FromSlash_def)

lemma map_slash_id: "CHR ''/'' \<notin> set xs \<Longrightarrow> map (\<lambda>c. if c = CHR ''/'' then sep else c) xs = xs"
  by (induction xs) auto

lemma FromSlash_no_slash: "CHR ''/'' \<notin> set xs \<Longrightarrow> filepath_FromSlash sep xs = xs"
  by (simp add: filepath_FromSlash_def map_slash_id)

lemma FromSlash_sep: "filepath_FromSlash sep [sep] = [sep]"
  by (simp add: filepath_FromSlash_def)

lemma FromSlash_Cons_sep: "filepath_FromSlash sep (sep # xs) = sep # filepath_FromSlash sep xs"
  by (simp add: filepath_FromSlash_def)

lemma FromSlash_dot: "filepath_FromSlash sep ''.'' = ''.''"
  by (simp add: filepath_FromSlash_def)

lemma FromSlash_length: "length (filepath_FromSlash sep xs) = length xs"
  by (simp add: filepath_FromSlash_def)

lemma set_strings_Join: "set (strings_Join els s) \<subseteq> (\<Union>e \<in> set els. set e) \<union> set s"
  by (induction els s rule: strings_Join.induct) auto

lemma FromSlash_joined:
  assumes "\<forall>e \<in> set els. CHR ''/'' \<notin> set e"
  shows "filepath_FromSlash sep (strings_Join els [sep]) = strings_Join els [sep]"
proof (cases "sep = CHR ''/''")
  case True
  then show ?thesis by (simp add: filepath_FromSlash_def)
next
  case False
  with assms set_strings_Join [of els "[sep]"] have "CHR ''/'' \<notin> set (strings_Join els [sep])"
    by auto
  then show ?thesis by (rule FromSlash_no_slash)
qed

lemma FromSlash_slash_joined:
  assumes "\<forall>e \<in> set els. CHR ''/'' \<notin> set e"
  shows "filepath_FromSlash sep (CHR ''/'' # strings_Join els ''/'') = sep # strings_Join els [sep]"
proof -
  have "map (\<lambda>c. if c = CHR ''/'' then sep else c) (strings_Join els ''/'') = strings_Join els [sep]"
    using assms by (induction els "''/''" rule: strings_Join.induct) (simp_all add: map_slash_id)
  then show ?thesis
    by (auto simp add: filepath_FromSlash_def)
qed

subsection \<open>Containment\<close>

lemma within_render:
  assumes els: "\<forall>el \<in> set els. real_name sep el" and fs: "\<forall>el \<in> set fs. real_name sep el"
    and slash: "\<forall>el \<in> set fs. CHR ''/'' \<notin> set el" and r: "rooted \<longrightarrow> n = 0"
  shows "lexically_within sep
           (filepath_FromSlash sep (if render sep rooted n els = [] then ''.'' else render sep rooted n els))
           (filepath_FromSlash sep
              (if render sep rooted n (els @ fs) = [] then ''.'' else render sep rooted n (els @ fs)))"
proof (cases "fs = []")
  case True
  then show ?thesis by (simp add: lexically_within_def)
next
  case False
  let ?L = "replicate n ''..'' @ els"
  let ?pre = "if rooted then [sep] else []"
  let ?J = "strings_Join fs [sep]"
  from fs have nosep: "\<forall>e \<in> set fs. sep \<notin> set e" and nodd: "''..'' \<notin> set fs"
    by (auto simp add: real_name_def)
  from False nosep have el: "elements sep ?J = fs"
    by (rule elements_joined)
  from False obtain f fs' where ffs: "fs = f # fs'"
    by (cases fs) auto
  with fs obtain c f' where f: "f = c # f'" and c: "c \<noteq> sep"
    by (cases f) (auto simp add: real_name_def)
  from ffs f have J: "?J \<noteq> []" "hd ?J = c"
    by (simp_all add: strings_Join_Cons)
  have fJ: "filepath_FromSlash sep ?J = ?J"
    using slash by (rule FromSlash_joined)
  show ?thesis
  proof (cases "?L = []")
    case True
    then have L: "n = 0" "els = []"
      by simp_all
    show ?thesis
    proof (cases rooted)
      case True
      with L have "render sep rooted n els = [sep]" "render sep rooted n (els @ fs) = sep # ?J"
        by (simp_all add: render_def)
      moreover have "filepath_FromSlash sep (sep # ?J) = sep # ?J"
        by (simp add: FromSlash_Cons_sep fJ)
      ultimately show ?thesis
        using el nodd by (simp add: lexically_within_def FromSlash_sep)
    next
      case False
      with L have "render sep rooted n els = []" "render sep rooted n (els @ fs) = ?J"
        by (simp_all add: render_def)
      then show ?thesis
        using el nodd fJ J c by (simp add: lexically_within_def FromSlash_dot)
    qed
  next
    case ne: False
    let ?B = "render sep rooted n els"
    from ne have B: "?B \<noteq> []"
      using render_Nil_iff [of els sep rooted n] els by (auto simp add: real_name_def)
    have "strings_Join (?L @ fs) [sep] = strings_Join ?L [sep] @ [sep] @ ?J"
      using ne \<open>fs \<noteq> []\<close> strings_Join_append [of ?L fs "[sep]"] by auto
    then have R: "render sep rooted n (els @ fs) = ?B @ [sep] @ ?J"
      by (simp add: render_def)
    have "filepath_FromSlash sep (?B @ [sep] @ ?J) = filepath_FromSlash sep ?B @ [sep] @ ?J"
      by (simp add: FromSlash_append FromSlash_Cons_sep fJ)
    then show ?thesis
      using B R el nodd by (simp add: lexically_within_def FromSlash_length)
  qed
qed

lemma clean_core_dot: "clean_core sep ''.'' = ''.''"
  by (cases "sep = CHR ''.''") (auto simp add: clean_core_def Let_def clean_loop.simps(2))

lemma filepath_Clean_empty_dir:
  "filepath_Clean sep (if dir = [] then ''.'' else dir) = filepath_Clean sep dir"
  by (simp add: filepath_Clean_def clean_core_dot) (simp add: clean_core_def)

lemma cleaned_form:
  assumes "\<not> ((sep \<noteq> CHR ''/'' \<and> sep \<in> set name) \<or> CHR 0x00 \<in> set name)"
  shows "\<exists>fs. filepath_FromSlash sep (path_Clean (CHR ''/'' # name)) = sep # strings_Join fs [sep] \<and>
              (\<forall>el \<in> set fs. real_name sep el \<and> CHR ''/'' \<notin> set el)"
proof -
  from clean_core_rooted [of "CHR ''/''" name] obtain fs
    where c: "path_Clean (CHR ''/'' # name) = CHR ''/'' # strings_Join fs ''/''"
      and fs: "\<forall>el \<in> set fs. real_name (CHR ''/'') el \<and> set el \<subseteq> set name"
    unfolding path_Clean_def by blast
  from fs have slash: "\<forall>el \<in> set fs. CHR ''/'' \<notin> set el"
    by (simp add: real_name_def)
  have real: "\<forall>el \<in> set fs. real_name sep el"
  proof (cases "sep = CHR ''/''")
    case True
    with fs show ?thesis by simp
  next
    case False
    with assms have "sep \<notin> set name" by simp
    with fs show ?thesis by (auto simp add: real_name_def)
  qed
  from c FromSlash_slash_joined [OF slash, of sep] real slash show ?thesis
    by auto
qed

lemma filepath_Clean_within:
  assumes "X \<noteq> []" and "\<forall>el \<in> set fs. real_name sep el \<and> CHR ''/'' \<notin> set el"
  shows "lexically_within sep (filepath_Clean sep X)
           (filepath_Clean sep (X @ sep # sep # strings_Join fs [sep]))"
proof -
  from assms(2) have fs: "\<forall>el \<in> set fs. real_name sep el" and slash: "\<forall>el \<in> set fs. CHR ''/'' \<notin> set el"
    by simp_all
  from clean_core_extend [OF assms(1) fs] obtain rooted n els
    where els: "\<forall>el \<in> set els. real_name sep el" and r: "rooted \<longrightarrow> n = 0"
      and a: "clean_core sep X = (if render sep rooted n els = [] then ''.'' else render sep rooted n els)"
      and b: "clean_core sep (X @ sep # sep # strings_Join fs [sep])
             = (if render sep rooted n (els @ fs) = [] then ''.'' else render sep rooted n (els @ fs))"
    by blast
  from within_render [OF els fs slash r] show ?thesis
    unfolding filepath_Clean_def a b .
qed

subsection \<open>Cleaning a cleaned path\<close>

lemma clean_loop_only_dot: "sep \<noteq> CHR ''.'' \<Longrightarrow> clean_loop sep r ''.'' st = st"
  by (simp add: clean_loop_dot at_dot_def)

lemma clean_loop_only_dotdot:
  assumes "sep \<noteq> CHR ''.''"
  shows "clean_loop sep r ''..'' st = dotdot_elem sep r st"
proof -
  from assms have "CHR ''.'' \<noteq> sep" "\<not> at_dot sep (CHR ''.'') ''.''" "at_dotdot sep (CHR ''.'') ''.''"
    by (auto simp add: at_dot_def at_dotdot_def)
  from clean_loop_dotdot [OF this] show ?thesis
    by simp
qed

lemma clean_loop_dotdots:
  assumes "sep \<noteq> CHR ''.''"
  shows "clean_loop sep False (strings_Join (replicate n ''..'') [sep]) ([], 0)
           = (render sep False n [], length (render sep False n []))"
proof (induction n)
  case 0
  show ?case by (simp add: render_def)
next
  case (Suc n)
  show ?case
  proof (cases "n = 0")
    case True
    then show ?thesis
      using clean_loop_only_dotdot [OF assms, of False "([], 0)"] dotdot_elem_push [of sep 0]
      by (simp add: render_def)
  next
    case False
    have "replicate (Suc n) ''..'' = replicate n ''..'' @ [''..'']"
      by (simp add: replicate_append_same)
    with False have "strings_Join (replicate (Suc n) ''..'') [sep]
        = strings_Join (replicate n ''..'') [sep] @ sep # ''..''"
      by (simp add: strings_Join_snoc)
    then show ?thesis
      using Suc clean_loop_only_dotdot [OF assms] dotdot_elem_push [of sep n]
      by (simp add: clean_loop_append)
  qed
qed

lemma clean_loop_rendered:
  assumes "sep \<noteq> CHR ''.''" and els: "\<forall>el \<in> set els. real_name sep el" and "rooted \<longrightarrow> n = 0"
  shows "clean_loop sep rooted (strings_Join (replicate n ''..'' @ els) [sep])
           (if rooted then ([sep], 1) else ([], 0))
         = (render sep rooted n els, length (render sep rooted n []))"
proof -
  let ?init = "if rooted then ([sep], 1) else ([], 0)"
  let ?dots = "replicate n ''..''"
  have ne: "\<forall>e \<in> set []. e \<noteq> ([] :: string)" "\<forall>e \<in> set els. e \<noteq> []"
    using els by (auto simp add: real_name_def)
  have d: "clean_loop sep rooted (strings_Join ?dots [sep]) ?init
      = (render sep rooted n [], length (render sep rooted n []))"
  proof (cases rooted)
    case True
    with assms(3) show ?thesis by (simp add: render_def)
  next
    case False
    with clean_loop_dotdots [OF assms(1), of n] show ?thesis by simp
  qed
  have e: "clean_loop sep rooted (strings_Join els [sep]) (render sep rooted n [], length (render sep rooted n []))
      = (render sep rooted n els, length (render sep rooted n []))"
    using clean_loop_joined [OF els] foldl_real_elem_render [OF ne, of sep rooted n] by simp
  show ?thesis
  proof (cases "?dots = [] \<or> els = []")
    case True
    then show ?thesis
    proof
      assume "?dots = []"
      then have "n = 0" by simp
      with d e show ?thesis by simp
    next
      assume "els = []"
      with d show ?thesis by simp
    qed
  next
    case False
    then have "strings_Join (?dots @ els) [sep]
        = strings_Join ?dots [sep] @ sep # strings_Join els [sep]"
      using strings_Join_append [of ?dots els "[sep]"] by auto
    with d e show ?thesis
      by (simp add: clean_loop_append)
  qed
qed

lemma clean_core_reclean:
  assumes "sep \<noteq> CHR ''.''" and "X \<noteq> []"
  shows "clean_core sep (clean_core sep X @ sep # T) = clean_core sep (X @ sep # T)"
proof -
  let ?r = "hd X = sep"
  let ?X' = "if ?r then tl X else X"
  let ?init = "if ?r then ([sep], 1) else ([], 0)"
  have "clean_state sep ?r UNIV (clean_loop sep ?r ?X' ?init)"
    using clean_state_loop [OF clean_state_init [of sep ?r UNIV], of ?X'] by simp
  then obtain n els where st: "clean_loop sep ?r ?X' ?init
        = (render sep ?r n els, length (render sep ?r n []))"
    and els: "\<forall>el \<in> set els. real_name sep el" and n: "?r \<longrightarrow> n = 0"
    unfolding clean_state_def by auto
  let ?out = "render sep ?r n els"
  from assms(2) have h: "hd (X @ sep # T) = hd X"
    and t: "(if ?r then tl (X @ sep # T) else X @ sep # T) = ?X' @ sep # T"
    by simp_all
  have rhs: "clean_core sep (X @ sep # T)
      = (let out = fst (clean_loop sep ?r T (?out, length (render sep ?r n []))) in
         if out = [] then ''.'' else out)"
    unfolding clean_core_def Let_def h t using st by (simp add: clean_loop_append)
  have Y: "clean_core sep X = (if ?out = [] then ''.'' else ?out)"
    using assms(2) st by (simp add: clean_core_def Let_def)
  show ?thesis
  proof (cases "?out = []")
    case True
    with els have e: "\<not> ?r" "n = 0" "els = []"
      using render_Nil_iff [of els sep ?r n] by (auto simp add: real_name_def)
    have "clean_core sep (''.'' @ sep # T)
        = (let out = fst (clean_loop sep False T ([], 0)) in if out = [] then ''.'' else out)"
      using assms(1) clean_loop_append [of sep False "''.''" T "([], 0)"]
      by (simp add: clean_core_def Let_def clean_loop_only_dot)
    with True e rhs Y show ?thesis
      by (simp add: render_def)
  next
    case False
    let ?J = "strings_Join (replicate n ''..'' @ els) [sep]"
    have out: "?out = (if ?r then sep # ?J else ?J)"
      by (simp add: render_def)
    have hd: "(hd ?out = sep) = ?r"
    proof (cases ?r)
      case True
      with out show ?thesis by simp
    next
      case nr: False
      with out False have J: "?out = ?J" "?J \<noteq> []"
        by simp_all
      have "hd ?J \<noteq> sep"
      proof (cases n)
        case 0
        with J obtain el els' where c: "els = el # els'"
          by (cases els) auto
        with els obtain x xs where "el = x # xs" "x \<noteq> sep"
          by (cases el) (auto simp add: real_name_def)
        with 0 c show ?thesis
          by (simp add: strings_Join_Cons)
      next
        case (Suc m)
        with assms(1) show ?thesis
          by (simp add: strings_Join_Cons)
      qed
      with nr J show ?thesis by simp
    qed
    have tl: "(if ?r then tl (?out @ sep # T) else ?out @ sep # T) = ?J @ sep # T"
      by (simp add: render_def)
    have "clean_loop sep ?r (?J @ sep # T) ?init
        = clean_loop sep ?r T (?out, length (render sep ?r n []))"
      using clean_loop_rendered [OF assms(1) els n] by (simp only: clean_loop_append)
    then have "clean_core sep (?out @ sep # T)
        = (let out = fst (clean_loop sep ?r T (?out, length (render sep ?r n []))) in
           if out = [] then ''.'' else out)"
      using False hd unfolding clean_core_def Let_def
      by (simp only: hd_append2 [OF False] tl) simp
    with False rhs Y show ?thesis
      by simp
  qed
qed

lemma filepath_Join_onto_cleaned:
  assumes "X \<noteq> []"
  shows "filepath_Join (CHR ''/'') [filepath_Clean (CHR ''/'') X, T]
           = filepath_Clean (CHR ''/'') (X @ CHR ''/'' # T)"
proof -
  have "filepath_Clean (CHR ''/'') X \<noteq> []"
    by (rule filepath_Clean_nonempty)
  then show ?thesis
    using clean_core_reclean [of "CHR ''/''" X T] assms
    by (simp add: filepath_Join_def filepath_Clean_def filepath_FromSlash_def)
qed

lemma clean_core_trailing_sep:
  assumes "Y \<noteq> []"
  shows "clean_core sep (Y @ [sep]) = clean_core sep Y"
proof -
  from assms have "hd (Y @ [sep]) = hd Y"
    and "(if hd Y = sep then tl (Y @ [sep]) else Y @ [sep]) = (if hd Y = sep then tl Y else Y) @ [sep]"
    by simp_all
  then show ?thesis
    using assms unfolding clean_core_def Let_def by (simp add: clean_loop_append)
qed

lemma clean_core_idem:
  assumes "sep \<noteq> CHR ''.''"
  shows "clean_core sep (clean_core sep X) = clean_core sep X"
proof (cases "X = []")
  case True
  then show ?thesis
    using clean_core_dot [of sep] by (simp add: clean_core_def [of sep "[]"])
next
  case False
  have "clean_core sep (clean_core sep X) = clean_core sep (clean_core sep X @ [sep])"
    using clean_core_trailing_sep [OF clean_core_nonempty] by simp
  also have "\<dots> = clean_core sep (X @ [sep])"
    by (rule clean_core_reclean [OF assms False])
  also have "\<dots> = clean_core sep X"
    by (rule clean_core_trailing_sep [OF False])
  finally show ?thesis .
qed

lemma filepath_Clean_idem:
  "filepath_Clean (CHR ''/'') (filepath_Clean (CHR ''/'') X) = filepath_Clean (CHR ''/'') X"
  using clean_core_idem [of "CHR ''/''" X] by (simp add: filepath_Clean_def filepath_FromSlash_def)

lemma filepath_Join_clean:
  "filepath_Join (CHR ''/'') es \<noteq> [] \<Longrightarrow>
   filepath_Clean (CHR ''/'') (filepath_Join (CHR ''/'') es) = filepath_Join (CHR ''/'') es"
  by (cases "dropWhile (\<lambda>e. e = []) es") (simp_all add: filepath_Join_def filepath_Clean_idem)

lemma resolve_clean:
  "resolve (CHR ''/'') d ctx name \<noteq> [] \<Longrightarrow>
   filepath_Clean (CHR ''/'') (resolve (CHR ''/'') d ctx name) = resolve (CHR ''/'') d ctx name"
  by (auto simp add: resolve_def Let_def filepath_Join_clean split: if_splits option.splits)

section \<open>The path resolver\<close>

text \<open>
  C1: whenever \<open>resolve\<close> returns a non-empty path, for any virtual path and any
  authentication context, that path is lexically contained in the configured root, or in
  root/subdir when the policy of the authenticated user declares a subdirectory.
\<close>

theorem resolve_within_base:
  assumes "resolve sep d ctx name \<noteq> []"
  shows "lexically_within sep (resolve_base sep d ctx) (resolve sep d ctx name)"
proof -
  define dir where "dir = (if Dir (Config d) = [] then ''.'' else Dir (Config d))"
  from assms have ok: "\<not> ((sep \<noteq> CHR ''/'' \<and> sep \<in> set name) \<or> CHR 0x00 \<in> set name)"
    by (simp add: resolve_Nil_iff)
  from cleaned_form [OF ok] obtain fs
    where c: "filepath_FromSlash sep (path_Clean (CHR ''/'' # name)) = sep # strings_Join fs [sep]"
      and fs: "\<forall>el \<in> set fs. real_name sep el \<and> CHR ''/'' \<notin> set el"
    by blast
  have dir: "dir \<noteq> []"
    by (simp add: dir_def)
  have root: "filepath_Clean sep dir = filepath_Clean sep (Dir (Config d))"
    unfolding dir_def by (rule filepath_Clean_empty_dir)
  have plain: "lexically_within sep (filepath_Clean sep (Dir (Config d)))
      (filepath_Join sep [dir, sep # strings_Join fs [sep]])"
    using filepath_Clean_within [OF dir fs] dir root by (simp add: filepath_Join_def)
  have sub: "lexically_within sep (filepath_Join sep [dir, subdir])
      (filepath_Join sep [dir, subdir, sep # strings_Join fs [sep]])" for subdir
    using filepath_Clean_within [of "dir @ sep # subdir", OF _ fs] dir
    by (simp add: filepath_Join_def)
  from ok have g: "((sep \<noteq> CHR ''/'' \<and> sep \<in> set name) \<or> CHR 0x00 \<in> set name) = False"
    by simp
  have r: "resolve sep d ctx name =
      (case authenticated ctx of
         Some authInfo \<Rightarrow>
           (case Users (Config d) (Username authInfo) of
              Some userInfo \<Rightarrow>
                (case Subdir userInfo of
                   Some subdir \<Rightarrow> filepath_Join sep [dir, subdir, sep # strings_Join fs [sep]]
                 | None \<Rightarrow> filepath_Join sep [dir, sep # strings_Join fs [sep]])
            | None \<Rightarrow> filepath_Join sep [dir, sep # strings_Join fs [sep]])
       | None \<Rightarrow> filepath_Join sep [dir, sep # strings_Join fs [sep]])"
    unfolding resolve_def Let_def c g if_False dir_def [symmetric] ..
  have b: "resolve_base sep d ctx =
      (case authenticated ctx of
         Some authInfo \<Rightarrow>
           (case Users (Config d) (Username authInfo) of
              Some userInfo \<Rightarrow>
                (case Subdir userInfo of
                   Some subdir \<Rightarrow> filepath_Join sep [dir, subdir]
                 | None \<Rightarrow> filepath_Clean sep (Dir (Config d)))
            | None \<Rightarrow> filepath_Clean sep (Dir (Config d)))
       | None \<Rightarrow> filepath_Clean sep (Dir (Config d)))"
    unfolding resolve_base_def dir_def [symmetric] ..
  show ?thesis
    unfolding r b using plain sub by (simp split: option.splits)
qed

theorem resolve_within_base_witness:
  "resolve (CHR ''/'') data_users (ctx_user ''alice'') ''/../../etc/passwd''
     = ''/data/alice-home/etc/passwd'' \<and>
   resolve_base (CHR ''/'') data_users (ctx_user ''alice'') = ''/data/alice-home'' \<and>
   lexically_within (CHR ''/'') ''/data/alice-home'' ''/data/alice-home/etc/passwd'' \<and>
   resolve (CHR ''/'') data_users (ctx_user ''bob'') ''a/../../..'' = ''/data'' \<and>
   resolve_base (CHR ''/'') data_users (ctx_user ''bob'') = ''/data'' \<and>
   lexically_within (CHR ''/'') ''/data'' ''/data''"
proof -
  have r: "resolve (CHR ''/'') data_users (ctx_user ''alice'') ''/../../etc/passwd''
      = ''/data/alice-home/etc/passwd''"
    "resolve (CHR ''/'') data_users (ctx_user ''bob'') ''a/../../..'' = ''/data''"
    by (simp_all add: resolve_def path_eval scenario_eval)
  have b: "resolve_base (CHR ''/'') data_users (ctx_user ''alice'') = ''/data/alice-home''"
    "resolve_base (CHR ''/'') data_users (ctx_user ''bob'') = ''/data''"
    by (simp_all add: resolve_base_def path_eval scenario_eval)
  from resolve_within_base [of "CHR ''/''" data_users "ctx_user ''alice''" "''/../../etc/passwd''"]
    resolve_within_base [of "CHR ''/''" data_users "ctx_user ''bob''" "''a/../../..''"]
  show ?thesis
    unfolding r b by simp
qed

text \<open>
  C5: \<open>resolve\<close> returns the empty path exactly when the name contains a null byte or,
  where the separator of the platform is not \<open>/\<close>, that separator. Each of the five
  operations returns \<open>ErrNotExist\<close> exactly then (for \<open>Rename\<close>: when one of its two
  names is such), whatever the context, and has then made no system call and written no
  log.
\<close>

theorem resolve_rejects_exactly_unsafe_names:
  "(resolve (Separator pf) d ctx name = [] \<longleftrightarrow> ((Separator pf \<noteq> CHR ''/'' \<and> Separator pf \<in> set name) \<or> CHR 0x00 \<in> set name)) \<and>
   (fst (Mkdir pf d ctx name perm st) = Return (Some ErrNotExist) \<longleftrightarrow> ((Separator pf \<noteq> CHR ''/'' \<and> Separator pf \<in> set name) \<or> CHR 0x00 \<in> set name)) \<and>
   (fst (OpenFile pf d ctx name flag perm st) = Return (Inl ErrNotExist) \<longleftrightarrow> ((Separator pf \<noteq> CHR ''/'' \<and> Separator pf \<in> set name) \<or> CHR 0x00 \<in> set name)) \<and>
   (fst (RemoveAll pf d ctx name st) = Return (Some ErrNotExist) \<longleftrightarrow> ((Separator pf \<noteq> CHR ''/'' \<and> Separator pf \<in> set name) \<or> CHR 0x00 \<in> set name)) \<and>
   (fst (Stat pf d ctx name st) = Return (Inl ErrNotExist) \<longleftrightarrow> ((Separator pf \<noteq> CHR ''/'' \<and> Separator pf \<in> set name) \<or> CHR 0x00 \<in> set name)) \<and>
   (fst (Rename pf d ctx name other st) = Return (Some ErrNotExist) \<longleftrightarrow>
      ((Separator pf \<noteq> CHR ''/'' \<and> Separator pf \<in> set name) \<or> CHR 0x00 \<in> set name) \<or> ((Separator pf \<noteq> CHR ''/'' \<and> Separator pf \<in> set other) \<or> CHR 0x00 \<in> set other)) \<and>
   (((Separator pf \<noteq> CHR ''/'' \<and> Separator pf \<in> set name) \<or> CHR 0x00 \<in> set name) \<longrightarrow>
      Mkdir pf d ctx name perm st = (Return (Some ErrNotExist), st) \<and>
      OpenFile pf d ctx name flag perm st = (Return (Inl ErrNotExist), st) \<and>
      RemoveAll pf d ctx name st = (Return (Some ErrNotExist), st) \<and>
      Rename pf d ctx name other st = (Return (Some ErrNotExist), st) \<and>
      Rename pf d ctx other name st = (Return (Some ErrNotExist), st) \<and>
      Stat pf d ctx name st = (Return (Inl ErrNotExist), st))"
proof -
  have r: "resolve (Separator pf) d ctx n = [] \<longleftrightarrow>
      (Separator pf \<noteq> CHR ''/'' \<and> Separator pf \<in> set n) \<or> CHR 0x00 \<in> set n" for n
    by (rule resolve_Nil_iff)
  have "Mkdir pf d ctx name perm st = (Return (Some ErrNotExist), st)"
    and "OpenFile pf d ctx name flag perm st = (Return (Inl ErrNotExist), st)"
    and "RemoveAll pf d ctx name st = (Return (Some ErrNotExist), st)"
    and "Rename pf d ctx name other st = (Return (Some ErrNotExist), st)"
    and "Rename pf d ctx other name st = (Return (Some ErrNotExist), st)"
    and "Stat pf d ctx name st = (Return (Inl ErrNotExist), st)"
    if "resolve (Separator pf) d ctx name = []"
    using that by (simp_all add: Mkdir_def OpenFile_def RemoveAll_def Rename_def Stat_def Let_def)
  then show ?thesis
    unfolding r [symmetric] Mkdir_NotExist_iff OpenFile_NotExist_iff RemoveAll_NotExist_iff
      Stat_NotExist_iff Rename_NotExist_iff
    by blast
qed

theorem resolve_rejects_exactly_unsafe_names_witness:
  "resolve (Separator unix_files) data_users (ctx_user ''bob'') [CHR ''a'', CHR 0x00] = [] \<and>
   resolve (Separator unix_files) data_users (ctx_user ''bob'') ''a'' \<noteq> [] \<and>
   Mkdir unix_files data_users (ctx_user ''bob'') [CHR ''a'', CHR 0x00] 493 no_calls
     = (Return (Some ErrNotExist), no_calls) \<and>
   OpenFile unix_files data_users ctx_anonymous [CHR ''a'', CHR 0x00] 0 493 no_calls
     = (Return (Inl ErrNotExist), no_calls) \<and>
   Rename unix_files data_users ctx_anonymous ''b'' [CHR ''a'', CHR 0x00] no_calls
     = (Return (Some ErrNotExist), no_calls)"
  using resolve_rejects_exactly_unsafe_names [where pf = unix_files and d = data_users
      and ctx = "ctx_user ''bob''" and name = "[CHR ''a'', CHR 0x00]" and perm = 493
      and st = no_calls and flag = 0 and other = "''b''"]
    resolve_rejects_exactly_unsafe_names [where pf = unix_files and d = data_users
      and ctx = "ctx_user ''bob''" and name = "''a''", THEN conjunct1]
    resolve_rejects_exactly_unsafe_names [where pf = unix_files and d = data_users
      and ctx = ctx_anonymous and name = "[CHR ''a'', CHR 0x00]" and perm = 493
      and st = no_calls and flag = 0 and other = "''b''"]
  by (simp add: unix_files_def)

text \<open>
  C8: when the context is authenticated and the policy of the user declares a subdirectory,
  \<open>resolve\<close> joins root, subdirectory and the cleaned path; with no entry for the user,
  no subdirectory in the entry, or no authentication, it joins root and the cleaned path.
  With the separator \<open>/\<close> this is the cleaned path joined onto the base directory of the
  request, root/subdir or the root.
\<close>

theorem resolve_joins_onto_base:
  assumes "resolve sep d ctx name \<noteq> []"
  shows "(authenticated ctx = Some authInfo \<and> Users (Config d) (Username authInfo) = Some userInfo \<and>
            Subdir userInfo = Some subdir \<longrightarrow>
              resolve sep d ctx name
                = filepath_Join sep [if Dir (Config d) = [] then ''.'' else Dir (Config d), subdir,
                                     filepath_FromSlash sep (path_Clean (CHR ''/'' # name))]) \<and>
         (authenticated ctx = None \<or>
          (\<exists>authInfo. authenticated ctx = Some authInfo \<and>
             (Users (Config d) (Username authInfo) = None \<or>
              (\<exists>userInfo. Users (Config d) (Username authInfo) = Some userInfo \<and>
                 Subdir userInfo = None))) \<longrightarrow>
              resolve sep d ctx name
                = filepath_Join sep [if Dir (Config d) = [] then ''.'' else Dir (Config d),
                                     filepath_FromSlash sep (path_Clean (CHR ''/'' # name))]) \<and>
         (sep = CHR ''/'' \<longrightarrow>
            resolve sep d ctx name
              = filepath_Join sep [resolve_base sep d ctx,
                                   filepath_FromSlash sep (path_Clean (CHR ''/'' # name))])"
proof -
  define dir where "dir = (if Dir (Config d) = [] then ''.'' else Dir (Config d))"
  define cleaned where "cleaned = filepath_FromSlash sep (path_Clean (CHR ''/'' # name))"
  from assms have "\<not> ((sep \<noteq> CHR ''/'' \<and> sep \<in> set name) \<or> CHR 0x00 \<in> set name)"
    by (simp add: resolve_Nil_iff)
  then have g: "((sep \<noteq> CHR ''/'' \<and> sep \<in> set name) \<or> CHR 0x00 \<in> set name) = False"
    by simp
  have dir: "dir \<noteq> []"
    by (simp add: dir_def)
  have r: "resolve sep d ctx name =
      (case authenticated ctx of
         Some authInfo \<Rightarrow>
           (case Users (Config d) (Username authInfo) of
              Some userInfo \<Rightarrow>
                (case Subdir userInfo of
                   Some subdir \<Rightarrow> filepath_Join sep [dir, subdir, cleaned]
                 | None \<Rightarrow> filepath_Join sep [dir, cleaned])
            | None \<Rightarrow> filepath_Join sep [dir, cleaned])
       | None \<Rightarrow> filepath_Join sep [dir, cleaned])"
    unfolding resolve_def Let_def g if_False dir_def [symmetric] cleaned_def [symmetric] ..
  have b: "resolve_base sep d ctx =
      (case authenticated ctx of
         Some authInfo \<Rightarrow>
           (case Users (Config d) (Username authInfo) of
              Some userInfo \<Rightarrow>
                (case Subdir userInfo of
                   Some subdir \<Rightarrow> filepath_Join sep [dir, subdir]
                 | None \<Rightarrow> filepath_Clean sep (Dir (Config d)))
            | None \<Rightarrow> filepath_Clean sep (Dir (Config d)))
       | None \<Rightarrow> filepath_Clean sep (Dir (Config d)))"
    unfolding resolve_base_def dir_def [symmetric] ..
  have root: "filepath_Clean sep dir = filepath_Clean sep (Dir (Config d))"
    unfolding dir_def by (rule filepath_Clean_empty_dir)
  have plain: "filepath_Join sep [filepath_Clean sep (Dir (Config d)), cleaned]
      = filepath_Join sep [dir, cleaned]" if "sep = CHR ''/''"
    using filepath_Join_onto_cleaned [OF dir, of cleaned] dir that
    unfolding root [symmetric] by (simp add: filepath_Join_def [of _ "[dir, cleaned]"])
  have sub: "filepath_Join sep [filepath_Join sep [dir, subdir], cleaned]
      = filepath_Join sep [dir, subdir, cleaned]" if "sep = CHR ''/''" for subdir
    using filepath_Join_onto_cleaned [of "dir @ CHR ''/'' # subdir" cleaned] dir that
    by (simp add: filepath_Join_def [of _ "[dir, subdir, cleaned]"]
        filepath_Join_def [of _ "[dir, subdir]"])
  have "resolve sep d ctx name = filepath_Join sep [resolve_base sep d ctx, cleaned]"
    if "sep = CHR ''/''"
    unfolding r b using plain [OF that] sub [OF that] by (simp split: option.splits)
  then show ?thesis
    unfolding dir_def [symmetric] cleaned_def [symmetric] r by auto
qed

theorem resolve_joins_onto_base_witness:
  "resolve (CHR ''/'') data_users (ctx_user ''alice'') ''docs/../a.txt''
     = filepath_Join (CHR ''/'') [''/data'', ''alice-home'', path_Clean ''/docs/../a.txt''] \<and>
   resolve (CHR ''/'') data_users (ctx_user ''alice'') ''docs/../a.txt''
     = filepath_Join (CHR ''/'') [''/data/alice-home'', path_Clean ''/docs/../a.txt''] \<and>
   resolve (CHR ''/'') data_users (ctx_user ''alice'') ''docs/../a.txt'' = ''/data/alice-home/a.txt'' \<and>
   resolve (CHR ''/'') data_users ctx_anonymous ''docs/../a.txt''
     = filepath_Join (CHR ''/'') [''/data'', path_Clean ''/docs/../a.txt''] \<and>
   resolve (CHR ''/'') data_users ctx_anonymous ''docs/../a.txt'' = ''/data/a.txt''"
proof -
  have r: "resolve (CHR ''/'') data_users (ctx_user ''alice'') ''docs/../a.txt'' = ''/data/alice-home/a.txt''"
    "resolve (CHR ''/'') data_users ctx_anonymous ''docs/../a.txt'' = ''/data/a.txt''"
    by (simp_all add: resolve_def path_eval scenario_eval)
  have n: "resolve (CHR ''/'') data_users (ctx_user ''alice'') ''docs/../a.txt'' \<noteq> []"
    "resolve (CHR ''/'') data_users ctx_anonymous ''docs/../a.txt'' \<noteq> []"
    by (simp_all add: resolve_Nil_iff)
  have b: "resolve_base (CHR ''/'') data_users (ctx_user ''alice'') = ''/data/alice-home''"
    by (simp add: resolve_base_def path_eval scenario_eval)
  have a: "authenticated (ctx_user ''alice'') = Some \<lparr>Username = ''alice'', Authenticated = True\<rparr>"
    "authenticated ctx_anonymous = None"
    "Users (Config data_users) ''alice'' = Some (no_policy\<lparr>Subdir := Some ''alice-home'', Write := Some False\<rparr>)"
    "Subdir (no_policy\<lparr>Subdir := Some ''alice-home'', Write := Some False\<rparr>) = Some ''alice-home''"
    "Dir (Config data_users) = ''/data''"
    by (simp_all add: scenario_eval)
  have f: "filepath_FromSlash (CHR ''/'') p = p" for p
    by (simp add: filepath_FromSlash_def)
  note alice = resolve_joins_onto_base [OF n(1), of "\<lparr>Username = ''alice'', Authenticated = True\<rparr>"
      "no_policy\<lparr>Subdir := Some ''alice-home'', Write := Some False\<rparr>" "''alice-home''"]
  have "resolve (CHR ''/'') data_users (ctx_user ''alice'') ''docs/../a.txt''
     = filepath_Join (CHR ''/'') [''/data'', ''alice-home'', path_Clean ''/docs/../a.txt'']"
    using alice [THEN conjunct1] unfolding f using a by simp
  moreover have "resolve (CHR ''/'') data_users (ctx_user ''alice'') ''docs/../a.txt''
     = filepath_Join (CHR ''/'') [''/data/alice-home'', path_Clean ''/docs/../a.txt'']"
    using alice [THEN conjunct2, THEN conjunct2] unfolding b f by simp
  moreover have "resolve (CHR ''/'') data_users ctx_anonymous ''docs/../a.txt''
     = filepath_Join (CHR ''/'') [''/data'', path_Clean ''/docs/../a.txt'']"
    using resolve_joins_onto_base [OF n(2), THEN conjunct2, THEN conjunct1] unfolding f using a by simp
  ultimately show ?thesis
    using r by simp
qed

section \<open>The adapter operations\<close>

text \<open>
  C3, as stated, fails for \<open>Rename\<close>: it checks the write permission before the root,
  so without write permission a rename of the root ends with \<open>ErrPermission\<close>.
\<close>

theorem rename_root_without_write_counterexample:
  "resolve (Separator unix_files) data_users (ctx_user ''carol'') ''/''
     = filepath_Clean (Separator unix_files) (Dir (Config data_users)) \<and>
   Rename unix_files data_users (ctx_user ''carol'') ''/'' ''/x'' no_calls
     \<noteq> (Return (Some ErrInvalid), no_calls) \<and>
   Rename unix_files data_users (ctx_user ''carol'') ''/'' ''/x'' no_calls
     = (Return (Some ErrPermission), no_calls)"
  by (simp add: Rename_def hasWrite_def resolve_def Let_def path_eval scenario_eval)

text \<open>
  C3, amended: \<open>RemoveAll\<close> on a path that resolves to the root returns \<open>ErrInvalid\<close>
  for every context and configuration. \<open>Rename\<close> with a name that resolves to the root
  (both names resolving) returns \<open>ErrInvalid\<close> when the write check allows and
  \<open>ErrPermission\<close> when it denies.
\<close>

theorem root_never_removed_or_renamed:
  "(resolve (Separator pf) d ctx name = filepath_Clean (Separator pf) (Dir (Config d)) \<longrightarrow>
      RemoveAll pf d ctx name st = (Return (Some ErrInvalid), st)) \<and>
   (resolve (Separator pf) d ctx oldName \<noteq> [] \<and> resolve (Separator pf) d ctx newName \<noteq> [] \<and>
    (resolve (Separator pf) d ctx oldName = filepath_Clean (Separator pf) (Dir (Config d)) \<or>
     resolve (Separator pf) d ctx newName = filepath_Clean (Separator pf) (Dir (Config d))) \<longrightarrow>
      (hasWrite ctx d = Return True \<longrightarrow>
         Rename pf d ctx oldName newName st = (Return (Some ErrInvalid), st)) \<and>
      (hasWrite ctx d = Return False \<longrightarrow>
         Rename pf d ctx oldName newName st = (Return (Some ErrPermission), st)))"
  by (auto simp add: RemoveAll_def Rename_def Let_def filepath_Clean_nonempty)

theorem root_never_removed_or_renamed_witness:
  "resolve (Separator unix_files) data_users (ctx_user ''bob'') ''/x/..'' = ''/data'' \<and>
   filepath_Clean (Separator unix_files) (Dir (Config data_users)) = ''/data'' \<and>
   RemoveAll unix_files data_users (ctx_user ''bob'') ''/x/..'' no_calls
     = (Return (Some ErrInvalid), no_calls) \<and>
   RemoveAll unix_files data_users ctx_anonymous ''/'' no_calls
     = (Return (Some ErrInvalid), no_calls) \<and>
   hasWrite (ctx_user ''bob'') data_users = Return True \<and>
   Rename unix_files data_users (ctx_user ''bob'') ''/y'' ''/x/..'' no_calls
     = (Return (Some ErrInvalid), no_calls) \<and>
   hasWrite (ctx_user ''carol'') data_users = Return False \<and>
   Rename unix_files data_users (ctx_user ''carol'') ''/'' ''/y'' no_calls
     = (Return (Some ErrPermission), no_calls)"
proof -
  have r: "resolve (Separator unix_files) data_users (ctx_user ''bob'') ''/x/..'' = ''/data''"
    "resolve (Separator unix_files) data_users (ctx_user ''bob'') ''/y'' = ''/data/y''"
    "resolve (Separator unix_files) data_users ctx_anonymous ''/'' = ''/data''"
    "resolve (Separator unix_files) data_users (ctx_user ''carol'') ''/'' = ''/data''"
    "resolve (Separator unix_files) data_users (ctx_user ''carol'') ''/y'' = ''/data/y''"
    "filepath_Clean (Separator unix_files) (Dir (Config data_users)) = ''/data''"
    by (simp_all add: resolve_def path_eval scenario_eval)
  have w: "hasWrite (ctx_user ''bob'') data_users = Return True"
    "hasWrite (ctx_user ''carol'') data_users = Return False"
    by (simp_all add: hasWrite_def scenario_eval)
  from root_never_removed_or_renamed [of unix_files data_users "ctx_user ''bob''" "''/x/..''"
      no_calls "''/y''" "''/x/..''"]
    root_never_removed_or_renamed [of unix_files data_users ctx_anonymous "''/''" no_calls]
    root_never_removed_or_renamed [of unix_files data_users "ctx_user ''carol''" "''/''"
      no_calls "''/''" "''/y''"]
  show ?thesis
    using r w by simp
qed

text \<open>
  C7, as stated, fails: opening a directory read-only needs the read permission too, not
  the list permission alone.
\<close>

theorem open_directory_needs_read_counterexample:
  "resolve (Separator unix_dirs) data_users (ctx_user ''dave'') ''/docs'' = ''/data/docs'' \<and>
   (0 :: int) AND 3 = 0 \<and>
   os_Stat unix_dirs (calls no_calls) ''/data/docs''
     = Inr \<lparr>Name = ''/data/docs'', Size = 0, IsDir = True\<rparr> \<and>
   hasList (ctx_user ''dave'') data_users = Return True \<and>
   OpenFile unix_dirs data_users (ctx_user ''dave'') ''/docs'' 0 0 no_calls
     = (Return (Inl ErrPermission), \<lparr>calls = [Sys_Stat ''/data/docs''], logs = []\<rparr>)"
  by (simp add: OpenFile_def hasList_def hasRead_def call_Stat_def Let_def resolve_def
      path_eval scenario_eval)

text \<open>
  C7, amended: with the intent in the low two bits of the flag, a write bit requires the
  write permission; a read-only or read-write intent requires the read permission in every
  case and the list permission in addition when the target exists and is a directory. A
  failed requirement returns \<open>ErrPermission\<close> before \<open>os.OpenFile\<close> is called;
  otherwise \<open>os.OpenFile\<close> is called. This holds whenever the three checks return.
\<close>

theorem OpenFile_permission_gate:
  assumes "resolve (Separator pf) d ctx name = n" and "n \<noteq> []"
    and "hasWrite ctx d = Return w" and "hasRead ctx d = Return r" and "hasList ctx d = Return l"
  shows "let intent = flag AND 3;
             reads = (intent = 0 \<or> intent = O_RDWR);
             isdir = (case os_Stat pf (calls st) n of Inr fi \<Rightarrow> IsDir fi | Inl e \<Rightarrow> False);
             stat = (if reads then [Sys_Stat n] else [])
         in (intent \<noteq> 0 \<and> \<not> w \<longrightarrow>
               OpenFile pf d ctx name flag perm st = (Return (Inl ErrPermission), st)) \<and>
            ((intent = 0 \<or> w) \<and> reads \<and> ((isdir \<and> \<not> l) \<or> \<not> r) \<longrightarrow>
               OpenFile pf d ctx name flag perm st
                 = (Return (Inl ErrPermission), st\<lparr>calls := calls st @ [Sys_Stat n]\<rparr>)) \<and>
            ((intent = 0 \<or> w) \<and> (reads \<longrightarrow> (isdir \<longrightarrow> l) \<and> r) \<longrightarrow>
               fst (OpenFile pf d ctx name flag perm st) \<noteq> Return (Inl ErrPermission) \<and>
               calls (snd (OpenFile pf d ctx name flag perm st))
                 = calls st @ stat @ [Sys_OpenFile n flag perm])"
  using assms
  by (auto simp add: OpenFile_def OpenFile_open_def call_Stat_def call_OpenFile_def log_Info_def
      Let_def split: sum.splits)

theorem OpenFile_permission_gate_witness:
  "resolve (Separator unix_dirs) data_users (ctx_user ''bob'') ''/docs'' = ''/data/docs'' \<and>
   hasWrite (ctx_user ''bob'') data_users = Return True \<and>
   hasRead (ctx_user ''bob'') data_users = Return True \<and>
   hasList (ctx_user ''bob'') data_users = Return True \<and>
   calls (snd (OpenFile unix_dirs data_users (ctx_user ''bob'') ''/docs'' 2 0 no_calls))
     = [Sys_Stat ''/data/docs'', Sys_OpenFile ''/data/docs'' 2 0] \<and>
   calls (snd (OpenFile unix_dirs data_users (ctx_user ''bob'') ''/docs'' 1 0 no_calls))
     = [Sys_OpenFile ''/data/docs'' 1 0]"
proof -
  have r: "resolve (Separator unix_dirs) data_users (ctx_user ''bob'') ''/docs'' = ''/data/docs''"
    by (simp add: resolve_def path_eval scenario_eval)
  have n: "''/data/docs'' \<noteq> []"
    by simp
  have h: "hasWrite (ctx_user ''bob'') data_users = Return True"
    "hasRead (ctx_user ''bob'') data_users = Return True"
    "hasList (ctx_user ''bob'') data_users = Return True"
    by (simp_all add: hasWrite_def hasRead_def hasList_def scenario_eval)
  from OpenFile_permission_gate [OF r n h, of 2 no_calls 0]
    OpenFile_permission_gate [OF r n h, of 1 no_calls 0]
  show ?thesis
    using r h by (simp add: Let_def O_RDWR_def no_calls_def)
qed

text \<open>The system calls an operation adds to the history.\<close>

lemma Mkdir_calls:
  "c \<in> set (calls (snd (Mkdir pf d ctx name perm st))) \<Longrightarrow>
   c \<in> set (calls st) \<or> (\<exists>n. c = Sys_Mkdir n perm)"
  by (auto simp add: Mkdir_def Let_def call_Mkdir_def log_Info_def
      split: if_splits outcome.splits option.splits)

lemma Stat_calls:
  "c \<in> set (calls (snd (Stat pf d ctx name st))) \<Longrightarrow>
   c \<in> set (calls st) \<or> (\<exists>n. c = Sys_Stat n)"
  by (auto simp add: Stat_def Let_def call_Stat_def
      split: if_splits outcome.splits sum.splits)

lemma OpenFile_open_calls:
  "c \<in> set (calls (snd (OpenFile_open pf d ctx n flag perm st))) \<Longrightarrow>
   c \<in> set (calls st) \<or> c = Sys_OpenFile n flag perm"
  by (auto simp add: OpenFile_open_def call_OpenFile_def log_Info_def split: sum.splits if_splits)

lemma OpenFile_calls:
  "c \<in> set (calls (snd (OpenFile pf d ctx name flag perm st))) \<Longrightarrow>
   c \<in> set (calls st) \<or> (\<exists>n. c = Sys_Stat n \<or> c = Sys_OpenFile n flag perm)"
  by (auto simp add: OpenFile_def Let_def call_Stat_def
      split: if_splits outcome.splits dest!: OpenFile_open_calls)

lemma RemoveAll_calls:
  "c \<in> set (calls (snd (RemoveAll pf d ctx name st))) \<Longrightarrow>
   c \<in> set (calls st) \<or>
   (c = Sys_RemoveAll (resolve (Separator pf) d ctx name) \<and>
    resolve (Separator pf) d ctx name \<noteq> [] \<and>
    resolve (Separator pf) d ctx name \<noteq> filepath_Clean (Separator pf) (Dir (Config d)))"
  by (auto simp add: RemoveAll_def Let_def call_RemoveAll_def log_Info_def
      split: if_splits outcome.splits option.splits)

lemma Rename_calls:
  "c \<in> set (calls (snd (Rename pf d ctx oldName newName st))) \<Longrightarrow>
   c \<in> set (calls st) \<or>
   (c = Sys_Rename (resolve (Separator pf) d ctx oldName) (resolve (Separator pf) d ctx newName) \<and>
    resolve (Separator pf) d ctx oldName \<noteq> [] \<and> resolve (Separator pf) d ctx newName \<noteq> [] \<and>
    resolve (Separator pf) d ctx oldName \<noteq> filepath_Clean (Separator pf) (Dir (Config d)) \<and>
    resolve (Separator pf) d ctx newName \<noteq> filepath_Clean (Separator pf) (Dir (Config d)))"
  by (auto simp add: Rename_def Let_def call_Rename_def log_Info_def
      split: if_splits outcome.splits option.splits)

lemma resolve_not_unclean_root:
  assumes "resolve (CHR ''/'') d ctx name \<noteq> []"
    and "resolve (CHR ''/'') d ctx name \<noteq> filepath_Clean (CHR ''/'') (Dir (Config d))"
  shows "resolve (CHR ''/'') d ctx name \<noteq> Dir (Config d)"
proof
  assume "resolve (CHR ''/'') d ctx name = Dir (Config d)"
  with resolve_clean [OF assms(1)] assms(2) show False
    by simp
qed

lemma serve_calls:
  assumes "c \<in> set (calls (serve pf d req st))"
  shows "c \<in> set (calls st) \<or>
         (\<not> names_root (filepath_Clean (Separator pf) (Dir (Config d))) c \<and>
          (Separator pf = CHR ''/'' \<longrightarrow> \<not> names_root (Dir (Config d)) c))"
proof (cases req)
  case (Req_Mkdir ctx name perm)
  with assms Mkdir_calls [of c pf d ctx name perm st] show ?thesis by auto
next
  case (Req_OpenFile ctx name flag perm)
  with assms OpenFile_calls [of c pf d ctx name flag perm st] show ?thesis by auto
next
  case (Req_RemoveAll ctx name)
  with assms RemoveAll_calls [of c pf d ctx name st]
    resolve_not_unclean_root [of d ctx name]
  show ?thesis by auto
next
  case (Req_Rename ctx oldName newName)
  with assms Rename_calls [of c pf d ctx oldName newName st]
    resolve_not_unclean_root [of d ctx oldName] resolve_not_unclean_root [of d ctx newName]
  show ?thesis by auto
next
  case (Req_Stat ctx name)
  with assms Stat_calls [of c pf d ctx name st] show ?thesis by auto
qed

lemma serve_all_calls:
  assumes "\<And>req st c. c \<in> set (calls (serve pf d req st)) \<Longrightarrow> c \<in> set (calls st) \<or> Q c"
    and "\<forall>c \<in> set (calls st). Q c"
  shows "\<forall>c \<in> set (calls (serve_all pf d reqs st)). Q c"
  using assms(2)
proof (induction reqs arbitrary: st)
  case Nil
  then show ?case by simp
next
  case (Cons req reqs)
  have "\<forall>c \<in> set (calls (serve pf d req st)). Q c"
    using Cons.prems assms(1) [of _ req st] by blast
  then show ?case
    using Cons.IH by simp
qed

text \<open>
  C9: over any sequence of calls of the five operations, with any contexts, \<open>os.RemoveAll\<close>
  and \<open>os.Rename\<close> are never called with the configured root as a path: not with the
  cleaned root the operations compare with and, where the separator is \<open>/\<close>, not with
  the root as it is written in the configuration either.
\<close>

theorem root_never_passed_to_remove_or_rename:
  assumes "\<forall>c \<in> set (calls st). \<not> names_root (filepath_Clean (Separator pf) (Dir (Config d))) c"
  shows "(\<forall>c \<in> set (calls (serve_all pf d reqs st)).
            \<not> names_root (filepath_Clean (Separator pf) (Dir (Config d))) c) \<and>
         (Separator pf = CHR ''/'' \<and> (\<forall>c \<in> set (calls st). \<not> names_root (Dir (Config d)) c) \<longrightarrow>
            (\<forall>c \<in> set (calls (serve_all pf d reqs st)). \<not> names_root (Dir (Config d)) c))"
proof -
  have "\<forall>c \<in> set (calls (serve_all pf d reqs st)).
      \<not> names_root (filepath_Clean (Separator pf) (Dir (Config d))) c"
    using serve_calls [of _ pf d] assms
    by (intro serve_all_calls [where Q = "\<lambda>c. \<not> names_root (filepath_Clean (Separator pf) (Dir (Config d))) c"])
      blast+
  moreover have "\<forall>c \<in> set (calls (serve_all pf d reqs st)). \<not> names_root (Dir (Config d)) c"
    if "Separator pf = CHR ''/''" and "\<forall>c \<in> set (calls st). \<not> names_root (Dir (Config d)) c"
    using serve_calls [of _ pf d] that
    by (intro serve_all_calls [where Q = "\<lambda>c. \<not> names_root (Dir (Config d)) c"]) blast+
  ultimately show ?thesis
    by blast
qed

theorem root_never_passed_to_remove_or_rename_witness:
  "calls no_calls = [] \<and>
   filepath_Clean (Separator unix_files) (Dir (Config data_users)) = ''/data'' \<and>
   calls (serve_all unix_files data_users
            [Req_RemoveAll (ctx_user ''bob'') ''/'', Req_Rename (ctx_user ''bob'') ''/a'' ''/b/..'',
             Req_RemoveAll (ctx_user ''bob'') ''/a'', Req_Rename (ctx_user ''bob'') ''/a'' ''/b'']
            no_calls)
     = [Sys_RemoveAll ''/data/a'', Sys_Rename ''/data/a'' ''/data/b''] \<and>
   Sys_RemoveAll ''/data'' \<notin> set (calls (serve_all unix_files data_users
            [Req_RemoveAll (ctx_user ''bob'') ''/'', Req_Rename (ctx_user ''bob'') ''/a'' ''/b/..'',
             Req_RemoveAll (ctx_user ''bob'') ''/a'', Req_Rename (ctx_user ''bob'') ''/a'' ''/b'']
            no_calls)) \<and>
   Sys_Rename ''/data/a'' ''/data'' \<notin> set (calls (serve_all unix_files data_users
            [Req_RemoveAll (ctx_user ''bob'') ''/'', Req_Rename (ctx_user ''bob'') ''/a'' ''/b/..'',
             Req_RemoveAll (ctx_user ''bob'') ''/a'', Req_Rename (ctx_user ''bob'') ''/a'' ''/b'']
            no_calls))"
proof -
  let ?reqs = "[Req_RemoveAll (ctx_user ''bob'') ''/'', Req_Rename (ctx_user ''bob'') ''/a'' ''/b/..'',
             Req_RemoveAll (ctx_user ''bob'') ''/a'', Req_Rename (ctx_user ''bob'') ''/a'' ''/b'']"
  have e: "\<forall>c \<in> set (calls no_calls).
      \<not> names_root (filepath_Clean (Separator unix_files) (Dir (Config data_users))) c"
    by (simp add: no_calls_def)
  have r: "filepath_Clean (Separator unix_files) (Dir (Config data_users)) = ''/data''"
    by (simp add: path_eval scenario_eval)
  have c: "calls (serve_all unix_files data_users ?reqs no_calls)
     = [Sys_RemoveAll ''/data/a'', Sys_Rename ''/data/a'' ''/data/b'']"
    by (simp add: RemoveAll_def Rename_def hasDelete_def hasWrite_def call_RemoveAll_def
        call_Rename_def log_Info_def Let_def resolve_def path_eval scenario_eval)
  have n: "names_root ''/data'' (Sys_RemoveAll ''/data'')"
    "names_root ''/data'' (Sys_Rename ''/data/a'' ''/data'')"
    by simp_all
  from root_never_passed_to_remove_or_rename [OF e, of ?reqs, THEN conjunct1]
  have "\<forall>c \<in> set (calls (serve_all unix_files data_users ?reqs no_calls)). \<not> names_root ''/data'' c"
    unfolding r .
  with n have "Sys_RemoveAll ''/data'' \<notin> set (calls (serve_all unix_files data_users ?reqs no_calls))"
    and "Sys_Rename ''/data/a'' ''/data'' \<notin> set (calls (serve_all unix_files data_users ?reqs no_calls))"
    by blast+
  with r c show ?thesis
    by (simp add: no_calls_def)
qed

section \<open>The adapter \<open>UserDir\<close> has no permission gate\<close>

text \<open>
  C10: no operation of \<open>UserDir\<close> returns \<open>ErrPermission\<close>. When the name resolves
  (and, for \<open>RemoveAll\<close> and \<open>Rename\<close>, not to the base directory) the operation is
  the system call and nothing else, and an authenticated context is rooted at the base
  directory joined with the user name as it is.
\<close>

theorem UserDir_has_no_permission_gate:
  "fst (UserDir_Mkdir pf d ctx name perm st) \<noteq> Some ErrPermission \<and>
   fst (UserDir_OpenFile pf d ctx name flag perm st) \<noteq> Inl ErrPermission \<and>
   fst (UserDir_RemoveAll pf d ctx name st) \<noteq> Some ErrPermission \<and>
   fst (UserDir_Rename pf d ctx name newName st) \<noteq> Some ErrPermission \<and>
   fst (UserDir_Stat pf d ctx name st) \<noteq> Inl ErrPermission \<and>
   (UserDir_resolve (Separator pf) d ctx name = n \<and> n \<noteq> [] \<longrightarrow>
      UserDir_Mkdir pf d ctx name perm st
        = (map_option OSError (os_Mkdir pf (calls st) n perm),
           st\<lparr>calls := calls st @ [Sys_Mkdir n perm]\<rparr>) \<and>
      UserDir_OpenFile pf d ctx name flag perm st
        = (case os_OpenFile pf (calls st) n flag perm of Inl e \<Rightarrow> Inl (OSError e) | Inr f \<Rightarrow> Inr f,
           st\<lparr>calls := calls st @ [Sys_OpenFile n flag perm]\<rparr>) \<and>
      UserDir_Stat pf d ctx name st
        = (case os_Stat pf (calls st) n of Inl e \<Rightarrow> Inl (OSError e) | Inr fi \<Rightarrow> Inr fi,
           st\<lparr>calls := calls st @ [Sys_Stat n]\<rparr>) \<and>
      (n \<noteq> filepath_Clean (Separator pf) (BaseDir d) \<longrightarrow>
         UserDir_RemoveAll pf d ctx name st
           = (map_option OSError (os_RemoveAll pf (calls st) n),
              st\<lparr>calls := calls st @ [Sys_RemoveAll n]\<rparr>) \<and>
         (UserDir_resolve (Separator pf) d ctx newName = n' \<and> n' \<noteq> [] \<and>
          n' \<noteq> filepath_Clean (Separator pf) (BaseDir d) \<longrightarrow>
            UserDir_Rename pf d ctx name newName st
              = (map_option OSError (os_Rename pf (calls st) n n'),
                 st\<lparr>calls := calls st @ [Sys_Rename n n']\<rparr>))) \<and>
      (authenticated ctx = Some authInfo \<longrightarrow>
         n = filepath_Join (Separator pf)
               [if BaseDir d = [] then ''.'' else BaseDir d, Username authInfo,
                filepath_FromSlash (Separator pf) (path_Clean (CHR ''/'' # name))]))"
proof -
  have "fst (UserDir_Mkdir pf d ctx name perm st) \<noteq> Some ErrPermission"
    by (simp add: UserDir_Mkdir_def Let_def split: prod.splits)
  moreover have "fst (UserDir_OpenFile pf d ctx name flag perm st) \<noteq> Inl ErrPermission"
    by (simp add: UserDir_OpenFile_def Let_def split: prod.splits sum.splits)
  moreover have "fst (UserDir_RemoveAll pf d ctx name st) \<noteq> Some ErrPermission"
    by (simp add: UserDir_RemoveAll_def Let_def split: prod.splits)
  moreover have "fst (UserDir_Rename pf d ctx name newName st) \<noteq> Some ErrPermission"
    by (simp add: UserDir_Rename_def Let_def split: prod.splits)
  moreover have "fst (UserDir_Stat pf d ctx name st) \<noteq> Inl ErrPermission"
    by (simp add: UserDir_Stat_def Let_def split: prod.splits sum.splits)
  moreover have "UserDir_Mkdir pf d ctx name perm st
        = (map_option OSError (os_Mkdir pf (calls st) n perm),
           st\<lparr>calls := calls st @ [Sys_Mkdir n perm]\<rparr>)"
    and "UserDir_OpenFile pf d ctx name flag perm st
        = (case os_OpenFile pf (calls st) n flag perm of Inl e \<Rightarrow> Inl (OSError e) | Inr f \<Rightarrow> Inr f,
           st\<lparr>calls := calls st @ [Sys_OpenFile n flag perm]\<rparr>)"
    and "UserDir_Stat pf d ctx name st
        = (case os_Stat pf (calls st) n of Inl e \<Rightarrow> Inl (OSError e) | Inr fi \<Rightarrow> Inr fi,
           st\<lparr>calls := calls st @ [Sys_Stat n]\<rparr>)"
    if "UserDir_resolve (Separator pf) d ctx name = n" and "n \<noteq> []"
    using that
    by (simp_all add: UserDir_Mkdir_def UserDir_OpenFile_def UserDir_Stat_def Let_def
        call_Mkdir_def call_OpenFile_def call_Stat_def split: sum.splits)
  moreover have "UserDir_RemoveAll pf d ctx name st
           = (map_option OSError (os_RemoveAll pf (calls st) n),
              st\<lparr>calls := calls st @ [Sys_RemoveAll n]\<rparr>)"
    if "UserDir_resolve (Separator pf) d ctx name = n" and "n \<noteq> []"
      and "n \<noteq> filepath_Clean (Separator pf) (BaseDir d)"
    using that by (simp add: UserDir_RemoveAll_def Let_def call_RemoveAll_def)
  moreover have "UserDir_Rename pf d ctx name newName st
              = (map_option OSError (os_Rename pf (calls st) n n'),
                 st\<lparr>calls := calls st @ [Sys_Rename n n']\<rparr>)"
    if "UserDir_resolve (Separator pf) d ctx name = n" and "n \<noteq> []"
      and "n \<noteq> filepath_Clean (Separator pf) (BaseDir d)"
      and "UserDir_resolve (Separator pf) d ctx newName = n'" and "n' \<noteq> []"
      and "n' \<noteq> filepath_Clean (Separator pf) (BaseDir d)"
    using that by (auto simp add: UserDir_Rename_def Let_def call_Rename_def)
  moreover have "n = filepath_Join (Separator pf)
               [if BaseDir d = [] then ''.'' else BaseDir d, Username authInfo,
                filepath_FromSlash (Separator pf) (path_Clean (CHR ''/'' # name))]"
    if "UserDir_resolve (Separator pf) d ctx name = n" and "n \<noteq> []"
      and "authenticated ctx = Some authInfo"
    using that by (auto simp add: UserDir_resolve_def Let_def split: if_splits)
  ultimately show ?thesis
    by blast
qed

theorem UserDir_has_no_permission_gate_witness:
  "UserDir_resolve (Separator unix_files) \<lparr>BaseDir = ''/data''\<rparr> (ctx_user ''nobody'') ''/a''
     = ''/data/nobody/a'' \<and>
   UserDir_Mkdir unix_files \<lparr>BaseDir = ''/data''\<rparr> (ctx_user ''nobody'') ''/a'' 493 no_calls
     = (None, \<lparr>calls = [Sys_Mkdir ''/data/nobody/a'' 493], logs = []\<rparr>) \<and>
   UserDir_RemoveAll unix_files \<lparr>BaseDir = ''/data''\<rparr> ctx_anonymous ''/a'' no_calls
     = (None, \<lparr>calls = [Sys_RemoveAll ''/data/a''], logs = []\<rparr>) \<and>
   UserDir_Rename unix_files \<lparr>BaseDir = ''/data''\<rparr> ctx_anonymous ''/a'' ''/b'' no_calls
     = (None, \<lparr>calls = [Sys_Rename ''/data/a'' ''/data/b''], logs = []\<rparr>)"
proof -
  have r: "UserDir_resolve (Separator unix_files) \<lparr>BaseDir = ''/data''\<rparr> (ctx_user ''nobody'') ''/a''
      = ''/data/nobody/a''"
    "UserDir_resolve (Separator unix_files) \<lparr>BaseDir = ''/data''\<rparr> ctx_anonymous ''/a'' = ''/data/a''"
    "UserDir_resolve (Separator unix_files) \<lparr>BaseDir = ''/data''\<rparr> ctx_anonymous ''/b'' = ''/data/b''"
    "filepath_Clean (Separator unix_files) (BaseDir \<lparr>BaseDir = ''/data''\<rparr>) = ''/data''"
    by (simp_all add: UserDir_resolve_def path_eval scenario_eval)
  from UserDir_has_no_permission_gate [of unix_files "\<lparr>BaseDir = ''/data''\<rparr>" "ctx_user ''nobody''"
      "''/a''" 493 no_calls 0 "''/b''" "''/data/nobody/a''"]
    UserDir_has_no_permission_gate [of unix_files "\<lparr>BaseDir = ''/data''\<rparr>" ctx_anonymous
      "''/a''" 493 no_calls 0 "''/b''" "''/data/a''" "''/data/b''"]
  show ?thesis
    using r by (simp add: unix_files_def no_calls_def)
qed

end
